theory Spec2Isabelle
  imports Complex_Main
begin

section \<open>JavaScript strings\<close>

text \<open>
  A string of the handler is modelled as a \<^typ>\<open>string\<close>: one \<^typ>\<open>char\<close> stands
  for one code unit of the JavaScript string, so \<^const>\<open>length\<close> is \<open>.length\<close> and the
  model covers the strings whose code units lie below 256.
\<close>

definition startsWith :: "string \<Rightarrow> string \<Rightarrow> bool" where
  \<comment> \<open>\<open>s.startsWith(p)\<close>\<close>
  "startsWith s p = (take (length p) s = p)"

fun includes_str :: "string \<Rightarrow> string \<Rightarrow> bool" where
  \<comment> \<open>\<open>s.includes(p)\<close>: \<open>p\<close> occurs at some index of \<open>s\<close>\<close>
  "includes_str [] p = (p = [])"
| "includes_str (c # cs) p = (startsWith (c # cs) p \<or> includes_str cs p)"

fun replace :: "string \<Rightarrow> string \<Rightarrow> string \<Rightarrow> string" where
  \<comment> \<open>\<open>s.replace(p, r)\<close> with a string pattern: only the first occurrence of \<open>p\<close> is
      replaced (the handler's replacement \<open>''\<close> holds no \<open>$\<close> pattern)\<close>
  "replace [] p r = (if p = [] then r else [])"
| "replace (c # cs) p r =
     (if startsWith (c # cs) p then r @ drop (length p) (c # cs)
      else c # replace cs p r)"

section \<open>Model selector\<close>

datatype provider = Groq | Anthropic | OpenAI | Cerebras

definition select_model :: "string \<Rightarrow> provider \<times> string" where
  \<comment> \<open>the \<open>if\<close> chain that sets \<open>aiModel\<close>: the provider client that is called, and the
      name it is called with\<close>
  "select_model model =
     (if startsWith model ''anthropic/'' then (Anthropic, replace model ''anthropic/'' '''')
      else if startsWith model ''openai/'' then
        (if includes_str model ''gpt-oss'' then (Groq, model)
         else (OpenAI, replace model ''openai/'' ''''))
      else if startsWith model ''cerebras/'' then (Cerebras, replace model ''cerebras/'' '''')
      else (Cerebras, model))"

section \<open>String helpers of the tag scanner\<close>

definition is_ws :: "char \<Rightarrow> bool" where
  \<comment> \<open>the code units below 256 that \<open>trim\<close> strips: tab, line feed, vertical tab, form
      feed, carriage return, space and no-break space\<close>
  "is_ws c = (c = CHR 0x09 \<or> c = CHR 0x0A \<or> c = CHR 0x0B \<or> c = CHR 0x0C \<or> c = CHR 0x0D \<or>
     c = CHR '' '' \<or> c = CHR 0xA0)"

definition trim :: "string \<Rightarrow> string" where
  \<comment> \<open>\<open>s.trim()\<close>\<close>
  "trim s = rev (dropWhile is_ws (rev (dropWhile is_ws s)))"

definition slice_last :: "nat \<Rightarrow> string \<Rightarrow> string" where
  \<comment> \<open>\<open>s.slice(-n)\<close>: the whole string when it is shorter than \<open>n\<close>\<close>
  "slice_last n s = drop (length s - n) s"

definition is_sep :: "char \<Rightarrow> bool" where
  \<comment> \<open>the class \<open>[\n,]\<close>\<close>
  "is_sep c = (c = CHR 0x0A \<or> c = CHR '','')"

lemma startsWith_length: "startsWith s p \<Longrightarrow> length p \<le> length s"
proof -
  assume "startsWith s p"
  then have "length (take (length p) s) = length p"
    unfolding startsWith_def by simp
  then show ?thesis by simp
qed

lemma startsWith_drop_shorter:
  "startsWith s p \<Longrightarrow> p \<noteq> [] \<Longrightarrow> length (drop (length p) s) < length s"
  using startsWith_length [of s p] by (cases p) auto

function split_seps :: "string \<Rightarrow> string list" where
  \<comment> \<open>\<open>s.split(/[\n,]+/)\<close>: the pieces between the maximal runs of separators; a
      separator at either end leaves an empty piece there, and \<open>''\<close> splits to \<open>['']\<close>\<close>
  "split_seps [] = [[]]"
| "split_seps (c # cs) =
     (if dropWhile (\<lambda>x. \<not> is_sep x) (c # cs) = [] then [c # cs]
      else takeWhile (\<lambda>x. \<not> is_sep x) (c # cs) #
           split_seps (dropWhile is_sep (dropWhile (\<lambda>x. \<not> is_sep x) (c # cs))))"
  by pat_completeness auto
termination
proof (relation "measure length")
  show "wf (measure length)" by simp
next
  fix c :: char and cs :: string
  assume ne: "dropWhile (\<lambda>x. \<not> is_sep x) (c # cs) \<noteq> []"
  then obtain y ys where rest: "dropWhile (\<lambda>x. \<not> is_sep x) (c # cs) = y # ys"
    by (cases "dropWhile (\<lambda>x. \<not> is_sep x) (c # cs)") auto
  then have "is_sep y"
    using hd_dropWhile [of "\<lambda>x. \<not> is_sep x" "c # cs"] by auto
  then have "length (dropWhile is_sep (y # ys)) \<le> length ys"
    by (simp add: length_dropWhile_le)
  moreover have "length (y # ys) \<le> length (c # cs)"
    using length_dropWhile_le [of "\<lambda>x. \<not> is_sep x" "c # cs"] rest by simp
  ultimately show "(dropWhile is_sep (dropWhile (\<lambda>x. \<not> is_sep x) (c # cs)), c # cs)
      \<in> measure length"
    using rest by simp
qed

section \<open>The two tag patterns\<close>

definition match_package :: "string \<Rightarrow> (string \<times> string) option" where
  \<comment> \<open>\<open>/<package>([^<]+)<\/package>/\<close> tried at the start of \<open>s\<close>: the captured group
      and the text after the match. The greedy group takes the whole run of characters
      other than \<open><\<close>; no shorter run can be followed by \<open><\<close>.\<close>
  "match_package s =
     (if startsWith s ''<package>'' then
        (let name = takeWhile (\<lambda>c. c \<noteq> CHR ''<'') (drop (length ''<package>'') s);
             rest = dropWhile (\<lambda>c. c \<noteq> CHR ''<'') (drop (length ''<package>'') s)
         in if name \<noteq> [] \<and> startsWith rest ''</package>''
            then Some (name, drop (length ''</package>'') rest) else None)
      else None)"

lemma match_package_shorter:
  assumes "match_package s = Some (name, rest)"
  shows "length rest < length s"
proof -
  let ?r = "dropWhile (\<lambda>c. c \<noteq> CHR ''<'') (drop (length ''<package>'') s)"
  from assms have pre: "startsWith s ''<package>''" and rest: "rest = drop (length ''</package>'') ?r"
    by (auto simp: match_package_def Let_def split: if_splits)
  from pre have "length (drop (length ''<package>'') s) < length s"
    by (rule startsWith_drop_shorter) simp
  moreover have "length ?r \<le> length (drop (length ''<package>'') s)"
    by (rule length_dropWhile_le)
  ultimately show ?thesis
    using rest by simp
qed

function package_matches :: "string \<Rightarrow> string list" where
  \<comment> \<open>the groups that the loop \<open>while ((m = packageRegex.exec(searchText)) !== null)\<close>
      sees, in order: the pattern is tried at each index from \<open>lastIndex\<close> on, and a
      match moves \<open>lastIndex\<close> to its end\<close>
  "package_matches [] = []"
| "package_matches (c # cs) =
     (case match_package (c # cs) of
        Some (name, rest) \<Rightarrow> name # package_matches rest
      | None \<Rightarrow> package_matches cs)"
  by pat_completeness auto
termination
  by (relation "measure length") (auto dest: match_package_shorter)

fun lazy_until :: "string \<Rightarrow> string \<Rightarrow> (string \<times> string) option" where
  \<comment> \<open>\<open>([\s\S]*?)\<close> followed by the literal \<open>p\<close>: the shortest body, that is, up to the
      first occurrence of \<open>p\<close>; the body and the text after \<open>p\<close>\<close>
  "lazy_until p [] = (if p = [] then Some ([], []) else None)"
| "lazy_until p (c # cs) =
     (if startsWith (c # cs) p then Some ([], drop (length p) (c # cs))
      else (case lazy_until p cs of
              Some (body, rest) \<Rightarrow> Some (c # body, rest)
            | None \<Rightarrow> None))"

definition match_packages_block :: "string \<Rightarrow> (string \<times> string) option" where
  \<comment> \<open>\<open>/<packages>([\s\S]*?)<\/packages>/\<close> tried at the start of \<open>s\<close>\<close>
  "match_packages_block s =
     (if startsWith s ''<packages>''
      then lazy_until ''</packages>'' (drop (length ''<packages>'') s) else None)"

lemma lazy_until_shorter: "lazy_until p s = Some (body, rest) \<Longrightarrow> length rest \<le> length s"
proof (induction s arbitrary: body)
  case Nil
  then show ?case by (simp split: if_splits)
next
  case (Cons c cs)
  show ?case
  proof (cases "startsWith (c # cs) p")
    case True
    with Cons.prems show ?thesis by auto
  next
    case False
    with Cons.prems obtain b where "lazy_until p cs = Some (b, rest)"
      by (auto split: option.splits)
    then have "length rest \<le> length cs" by (rule Cons.IH)
    then show ?thesis by simp
  qed
qed

lemma match_packages_block_shorter:
  assumes "match_packages_block s = Some (body, rest)"
  shows "length rest < length s"
proof -
  from assms have pre: "startsWith s ''<packages>''"
    and l: "lazy_until ''</packages>'' (drop (length ''<packages>'') s) = Some (body, rest)"
    by (auto simp: match_packages_block_def split: if_splits)
  from pre have "length (drop (length ''<packages>'') s) < length s"
    by (rule startsWith_drop_shorter) simp
  with lazy_until_shorter [OF l] show ?thesis by simp
qed

function packages_block_matches :: "string \<Rightarrow> string list" where
  \<comment> \<open>the bodies that the loop over \<open>packagesBlockRegex.exec(searchText)\<close> sees, in order\<close>
  "packages_block_matches [] = []"
| "packages_block_matches (c # cs) =
     (case match_packages_block (c # cs) of
        Some (body, rest) \<Rightarrow> body # packages_block_matches rest
      | None \<Rightarrow> packages_block_matches cs)"
  by pat_completeness auto
termination
  by (relation "measure length") (auto dest: match_packages_block_shorter)

section \<open>Stream events and the relay loop\<close>

datatype event =
    TextEv string  \<comment> \<open>\<open>{type: 'text', content}\<close>\<close>
  | PackageEv string string  \<comment> \<open>\<open>{type: 'package', name, message}\<close>\<close>
  | CompleteEv string "string list" string  \<comment> \<open>\<open>{type: 'complete', response, packages, message}\<close>\<close>
  | ErrorEv "string option"  \<comment> \<open>\<open>{type: 'error', error}\<close>; \<open>None\<close> is \<open>undefined\<close>\<close>

function show_nat :: "nat \<Rightarrow> string" where
  \<comment> \<open>a length inside a template literal: its decimal digits\<close>
  "show_nat n =
     (if n < 10 then [''0123456789'' ! n]
      else show_nat (n div 10) @ [''0123456789'' ! (n mod 10)])"
  by pat_completeness auto
termination
  by (relation "measure id") auto

definition pictograph :: string where
  \<comment> \<open>the first characters of the message template of a package event lie beyond
      code unit 255; they are kept as the nine bytes the source file holds for them\<close>
  "pictograph = [CHR 0xC3, CHR 0xB0, CHR 0xC5, CHR 0xB8, CHR 0xE2, CHR 0x80, CHR 0x9C,
     CHR 0xC2, CHR 0xA6]"

definition package_message :: "string \<Rightarrow> string" where
  "package_message name = pictograph @ '' Package detected: '' @ name"

definition complete_message :: "string \<Rightarrow> string list \<Rightarrow> string" where
  "complete_message fullResponse packagesToInstall =
     ''Generated '' @ show_nat (length fullResponse) @ '' characters with '' @
     show_nat (length packagesToInstall) @ '' packages''"

record relay_state =
  fullResponse :: string
  tagBuffer :: string
  packagesToInstall :: "string list"
  written :: "event list"  \<comment> \<open>the frames given to \<open>writer.write\<close>, oldest first\<close>

definition sendProgress :: "event \<Rightarrow> relay_state \<Rightarrow> relay_state" where
  \<comment> \<open>one frame \<open>data: <JSON>\n\n\<close> per event; the writer is taken to accept every write\<close>
  "sendProgress data st = st\<lparr>written := written st @ [data]\<rparr>"

definition push_package :: "string \<Rightarrow> relay_state \<Rightarrow> relay_state" where
  \<comment> \<open>\<open>packagesToInstall.push(name)\<close>, then the package event\<close>
  "push_package name st =
     sendProgress (PackageEv name (package_message name))
       (st\<lparr>packagesToInstall := packagesToInstall st @ [name]\<rparr>)"

definition on_package_match :: "relay_state \<Rightarrow> string \<Rightarrow> relay_state" where
  \<comment> \<open>the body of the first \<open>while\<close> loop, for the group \<open>packageMatch[1]\<close>\<close>
  "on_package_match st captured =
     (let packageName = trim captured
      in if packageName \<noteq> [] \<and> packageName \<notin> set (packagesToInstall st)
         then push_package packageName st else st)"

definition on_list_item :: "relay_state \<Rightarrow> string \<Rightarrow> relay_state" where
  \<comment> \<open>the body of \<open>for (const pkg of packagesList)\<close>\<close>
  "on_list_item st pkg =
     (if pkg \<notin> set (packagesToInstall st) then push_package pkg st else st)"

definition packagesList :: "string \<Rightarrow> string list" where
  \<comment> \<open>from the group \<open>packagesMatch[1]\<close>: trimmed, split, each piece trimmed, empty
      pieces dropped\<close>
  "packagesList captured =
     filter (\<lambda>pkg. length pkg > 0) (map trim (split_seps (trim captured)))"

definition on_packages_match :: "relay_state \<Rightarrow> string \<Rightarrow> relay_state" where
  \<comment> \<open>the body of the second \<open>while\<close> loop\<close>
  "on_packages_match st captured = foldl on_list_item st (packagesList captured)"

definition process_chunk :: "relay_state \<Rightarrow> string \<Rightarrow> relay_state" where
  \<comment> \<open>the body of \<open>for await (const chunk of result.textStream)\<close>. Each regular
      expression is created afresh for the chunk, and what it matches does not depend on
      the packages found, so each \<open>while\<close> loop is a fold over its matches.\<close>
  "process_chunk st text =
     (let st1 = sendProgress (TextEv text) (st\<lparr>fullResponse := fullResponse st @ text\<rparr>);
          searchText = tagBuffer st1 @ text;
          st2 = foldl on_package_match st1 (package_matches searchText);
          st3 = foldl on_packages_match st2 (packages_block_matches searchText)
      in st3\<lparr>tagBuffer := slice_last 100 searchText\<rparr>)"

definition initial_state :: relay_state where
  \<comment> \<open>\<open>packagesToInstall = []\<close>, \<open>tagBuffer = ''\<close>, \<open>fullResponse = ''\<close>, nothing written\<close>
  "initial_state = \<lparr>fullResponse = [], tagBuffer = [], packagesToInstall = [], written = []\<rparr>"

definition relay_loop :: "string list \<Rightarrow> relay_state" where
  \<comment> \<open>the state after the loop has taken the chunks, in order\<close>
  "relay_loop chunks = foldl process_chunk initial_state chunks"

fun package_names :: "event list \<Rightarrow> string list" where
  \<comment> \<open>the names of the package events of a trace, in order\<close>
  "package_names [] = []"
| "package_names (PackageEv name msg # es) = name # package_names es"
| "package_names (e # es) = package_names es"

fun text_contents :: "event list \<Rightarrow> string list" where
  \<comment> \<open>the contents of the text events of a trace, in order\<close>
  "text_contents [] = []"
| "text_contents (TextEv content # es) = content # text_contents es"
| "text_contents (e # es) = text_contents es"

section \<open>The parsed request body\<close>

datatype json =
    JNull
  | JBool bool
  | JNum real
  | JStr string
  | JArr "json list"
  | JObj "(string \<times> json) list"

fun truthy :: "json \<Rightarrow> bool" where
  \<comment> \<open>what \<open>!v\<close>, \<open>v ? a : b\<close> and \<open>v || w\<close> test; a parsed number is never \<open>NaN\<close>\<close>
  "truthy JNull = False"
| "truthy (JBool b) = b"
| "truthy (JNum x) = (x \<noteq> 0)"
| "truthy (JStr s) = (s \<noteq> [])"
| "truthy (JArr vs) = True"
| "truthy (JObj kvs) = True"

fun property :: "json \<Rightarrow> string \<Rightarrow> json option" where
  \<comment> \<open>reading one of the six names of the destructuring pattern from a value other than
      \<open>null\<close>; \<open>None\<close> is \<open>undefined\<close>. Only an object can hold one of these names.\<close>
  "property (JObj kvs) k = map_of kvs k"
| "property v k = None"

record request_fields =
  prompt :: "json option"
  model :: json
  systemPrompt :: "json option"
  fileContents :: "json option"
  isEdit :: json
  temperature :: json

definition default_to :: "json \<Rightarrow> json option \<Rightarrow> json" where
  \<comment> \<open>a default of the pattern: it is used only for \<open>undefined\<close>\<close>
  "default_to d v = (case v of None \<Rightarrow> d | Some x \<Rightarrow> x)"

definition destructure :: "json \<Rightarrow> request_fields option" where
  \<comment> \<open>\<open>const { prompt, model = ..., ... } = await request.json()\<close>; \<open>None\<close> is the
      TypeError that destructuring \<open>null\<close> raises\<close>
  "destructure body =
     (case body of
        JNull \<Rightarrow> None
      | _ \<Rightarrow> Some \<lparr>prompt = property body ''prompt'',
                   model = default_to (JStr ''cerebras/qwen-3-235b-a22b-instruct-2507'')
                             (property body ''model''),
                   systemPrompt = property body ''systemPrompt'',
                   fileContents = property body ''fileContents'',
                   isEdit = default_to (JBool False) (property body ''isEdit''),
                   temperature = default_to (JNum 0.7) (property body ''temperature'')\<rparr>)"

section \<open>The conversation state\<close>

datatype role = User | Assistant

record metadata =
  editType :: "string option"
  addedPackages :: "string list"

record message =
  msg_id :: string
  role :: role
  content :: json
  timestamp :: nat
  metadata :: metadata

text \<open>
  The type \<open>ConversationState\<close> is declared outside the handler's file. The handler reads
  \<open>context.messages\<close> and \<open>lastUpdated\<close>; every other field of the state and of its context
  is the extension part of the two records below.
\<close>

record conversation_context =
  messages :: "message list"

record 'c conversation_state =
  context' :: "'c conversation_context_scheme"  \<comment> \<open>the field \<open>context\<close>\<close>
  lastUpdated :: nat

definition update_conversation ::
  "json \<Rightarrow> json \<Rightarrow> string \<Rightarrow> string list \<Rightarrow> (nat \<Rightarrow> nat) \<Rightarrow>
   ('c, 's) conversation_state_scheme \<Rightarrow> ('c, 's) conversation_state_scheme" where
  \<comment> \<open>the body of \<open>if (global.conversationState)\<close>; \<open>now k\<close> is what the call number \<open>k\<close>
      of \<open>Date.now()\<close> returns\<close>
  "update_conversation prompt' isEdit' response' packages' now cs =
     (let user_msg = \<lparr>msg_id = ''msg-'' @ show_nat (now 0), role = User, content = prompt',
            timestamp = now 1,
            metadata = \<lparr>editType = Some (if truthy isEdit' then ''edit'' else ''generate''),
              addedPackages = packages'\<rparr>\<rparr>;
          assistant_msg = \<lparr>msg_id = ''msg-'' @ show_nat (now 2 + 1), role = Assistant,
            content = JStr response', timestamp = now 3,
            metadata = \<lparr>editType = None, addedPackages = packages'\<rparr>\<rparr>
      in cs\<lparr>context' := (context' cs)\<lparr>messages := messages (context' cs) @ [user_msg, assistant_msg]\<rparr>,
            lastUpdated := now 4\<rparr>)"

section \<open>The handler\<close>

text \<open>
  One request is modelled. What the handler cannot decide belongs to its environment: what
  \<open>request.json()\<close> gives, what the awaited \<open>streamText\<close> call gives, what the text stream
  yields before it ends or throws, the global conversation state and the clock. A text
  stream is a finite list of chunks; a stream that never ends has no outcome here. The
  provider clients only build a model handle, the writer accepts every frame, and
  \<open>console.log\<close> is left out. Of the system prompt of lines 72 to 97 the model keeps
  whether building it throws; its text goes to \<open>streamText\<close> only. The outcome of a request is the response, the trace of the
  calls made in order (client, \<open>streamText\<close>, writer), and the conversation state left
  behind; the closure that feeds the stream runs to its end before the outcome is read.
\<close>

datatype thrown =
    Error string  \<comment> \<open>an \<open>Error\<close> instance, with its message\<close>
  | NonError "string option"  \<comment> \<open>any other value but \<open>null\<close> and \<open>undefined\<close>, with its \<open>message\<close>
      property (a string) if it has one\<close>
  | Nullish  \<comment> \<open>\<open>null\<close> or \<open>undefined\<close>: reading a property of it throws a TypeError\<close>

fun inner_catch :: "thrown \<Rightarrow> relay_state \<Rightarrow> relay_state" where
  \<comment> \<open>the \<open>catch\<close> of the closure: \<open>sendProgress({ type: 'error', error: (error as
      Error).message })\<close>. For \<open>null\<close> and \<open>undefined\<close> the argument itself throws, so nothing
      is sent; the \<open>finally\<close> runs all the same.\<close>
  "inner_catch (Error m) st = sendProgress (ErrorEv (Some m)) st"
| "inner_catch (NonError m) st = sendProgress (ErrorEv m) st"
| "inner_catch Nullish st = st"

record text_stream =
  chunks :: "string list"  \<comment> \<open>what \<open>result.textStream\<close> yields, in order\<close>
  failure :: "thrown option"  \<comment> \<open>what it throws after them, when it does not end normally\<close>

datatype error_body =
    ErrorText string
  | TypeErrorText  \<comment> \<open>the engine's message for a TypeError raised by the handler's own code\<close>

datatype http_response =
    JsonResponse nat error_body  \<comment> \<open>\<open>NextResponse.json({ error }, { status })\<close>\<close>
  | EventStream  \<comment> \<open>\<open>new Response(stream.readable, ...)\<close> with \<open>text/event-stream\<close>\<close>

datatype effect =
    ClientCall provider string  \<comment> \<open>a provider client called with a model name\<close>
  | StreamTextCall "provider \<times> string" json json  \<comment> \<open>\<open>streamText\<close> with the model, \<open>prompt\<close>, \<open>temperature\<close>\<close>
  | Write event  \<comment> \<open>\<open>writer.write\<close> of one frame\<close>
  | Close  \<comment> \<open>\<open>writer.close()\<close>\<close>

definition relay_closure ::
  "json \<Rightarrow> json \<Rightarrow> text_stream \<Rightarrow> (nat \<Rightarrow> nat) \<Rightarrow> ('c, 's) conversation_state_scheme option \<Rightarrow>
   effect list \<times> ('c, 's) conversation_state_scheme option" where
  \<comment> \<open>the asynchronous closure of lines 124 to 225, \<open>try\<close>, \<open>catch\<close> and \<open>finally\<close>: what it
      does to the writer, and the conversation state it leaves\<close>
  "relay_closure prompt' isEdit' ts now cs =
     (let st = relay_loop (chunks ts)
      in case failure ts of
           None \<Rightarrow>
             (let st' = sendProgress
                    (CompleteEv (fullResponse st) (packagesToInstall st)
                       (complete_message (fullResponse st) (packagesToInstall st))) st
              in (map Write (written st') @ [Close],
                  map_option
                    (update_conversation prompt' isEdit' (fullResponse st') (packagesToInstall st') now)
                    cs))
         | Some e \<Rightarrow> (map Write (written (inner_catch e st)) @ [Close], cs))"

record ('c, 's) environment =
  request_json :: "thrown + json"  \<comment> \<open>\<open>await request.json()\<close>: it throws, or the parsed body\<close>
  streamText :: "thrown + text_stream"  \<comment> \<open>\<open>await streamText(...)\<close>: it throws, or the result\<close>
  conversationState :: "('c, 's) conversation_state_scheme option"  \<comment> \<open>\<open>global.conversationState\<close>\<close>
  clock :: "nat \<Rightarrow> nat"  \<comment> \<open>the readings of \<open>Date.now()\<close>\<close>

record ('c, 's) outcome =
  response :: http_response
  effects :: "effect list"
  conversation :: "('c, 's) conversation_state_scheme option"

fun outer_catch :: "thrown \<Rightarrow> http_response" where
  \<comment> \<open>the \<open>catch\<close> of the handler's outer \<open>try\<close>\<close>
  "outer_catch (Error m) = JsonResponse 500 (ErrorText m)"
| "outer_catch (NonError m) = JsonResponse 500 (ErrorText ''Failed to generate code'')"
| "outer_catch Nullish = JsonResponse 500 (ErrorText ''Failed to generate code'')"

fun toString_ok :: "json \<Rightarrow> bool" where
  \<comment> \<open>whether a parsed value can stand in a template literal. No parsed value is
      callable, so an object with a property \<open>toString\<close> of its own has no way to a
      primitive and the conversion throws a TypeError; an array converts by \<open>join\<close>, which
      converts every element but \<open>null\<close>; everything else converts.\<close>
  "toString_ok (JObj kvs) = (map_of kvs ''toString'' = None)"
| "toString_ok (JArr vs) = list_all toString_ok vs"
| "toString_ok v = True"

definition template_throws :: "request_fields \<Rightarrow> bool" where
  \<comment> \<open>lines 73 to 97: \<open>${systemPrompt || ''}\<close>, and \<open>${fileContents}\<close> under
      \<open>if (fileContents)\<close>\<close>
  "template_throws req \<longleftrightarrow>
     (case systemPrompt req of None \<Rightarrow> False | Some v \<Rightarrow> truthy v \<and> \<not> toString_ok v) \<or>
     (case fileContents req of None \<Rightarrow> False | Some v \<Rightarrow> truthy v \<and> \<not> toString_ok v)"

definition stopped :: "http_response \<Rightarrow> effect list \<Rightarrow> ('c, 's) environment \<Rightarrow> ('c, 's) outcome" where
  \<comment> \<open>the handler returns a JSON response before any stream exists\<close>
  "stopped r io env = \<lparr>response = r, effects = io, conversation = conversationState env\<rparr>"

definition POST :: "('c, 's) environment \<Rightarrow> ('c, 's) outcome" where
  \<comment> \<open>the handler; what \<open>streamText\<close> does with its arguments is the environment's\<close>
  "POST env =
     (case request_json env of
        Inl e \<Rightarrow> stopped (outer_catch e) [] env
      | Inr body \<Rightarrow>
          (case destructure body of
             None \<Rightarrow> stopped (JsonResponse 500 TypeErrorText) [] env
           | Some req \<Rightarrow>
               (case prompt req of
                  None \<Rightarrow> stopped (JsonResponse 400 (ErrorText ''prompt is required'')) [] env
                | Some p \<Rightarrow>
                    if \<not> truthy p
                    then stopped (JsonResponse 400 (ErrorText ''prompt is required'')) [] env
                    else
                      (case model req of
                         JStr m \<Rightarrow>
                           (let aiModel = select_model m;
                                calls = [ClientCall (fst aiModel) (snd aiModel),
                                         StreamTextCall aiModel p (temperature req)]
                            in if template_throws req
                               then stopped (JsonResponse 500 TypeErrorText)
                                      [ClientCall (fst aiModel) (snd aiModel)] env
                               else
                                 (case streamText env of
                                    Inl e \<Rightarrow> stopped (outer_catch e) calls env
                                  | Inr ts \<Rightarrow>
                                      (let run = relay_closure p (isEdit req) ts (clock env)
                                                   (conversationState env)
                                       in \<lparr>response = EventStream, effects = calls @ fst run,
                                           conversation = snd run\<rparr>)))
                       | _ \<Rightarrow> stopped (JsonResponse 500 TypeErrorText) [] env))))"

section \<open>Reading a trace\<close>

fun events_of :: "effect list \<Rightarrow> event list" where
  \<comment> \<open>the events written to the stream, in order\<close>
  "events_of [] = []"
| "events_of (Write e # io) = e # events_of io"
| "events_of (x # io) = events_of io"

fun complete_responses :: "event list \<Rightarrow> string list" where
  \<comment> \<open>the \<open>response\<close> fields of the complete events of a trace, in order\<close>
  "complete_responses [] = []"
| "complete_responses (CompleteEv r pk msg # es) = r # complete_responses es"
| "complete_responses (e # es) = complete_responses es"

fun error_events :: "event list \<Rightarrow> string option list" where
  \<comment> \<open>the \<open>error\<close> fields of the error events of a trace, in order\<close>
  "error_events [] = []"
| "error_events (ErrorEv m # es) = m # error_events es"
| "error_events (e # es) = error_events es"

fun streamText_called :: "effect list \<Rightarrow> bool" where
  \<comment> \<open>whether the trace holds a call of \<open>streamText\<close>\<close>
  "streamText_called [] = False"
| "streamText_called (StreamTextCall a p t # io) = True"
| "streamText_called (x # io) = streamText_called io"

definition extends :: "relay_state \<Rightarrow> relay_state \<Rightarrow> bool" where
  \<comment> \<open>\<open>st'\<close> is \<open>st\<close> after some new package names were pushed and announced\<close>
  "extends st st' \<longleftrightarrow>
     fullResponse st' = fullResponse st \<and> tagBuffer st' = tagBuffer st \<and>
     (\<exists>new. packagesToInstall st' = packagesToInstall st @ new \<and>
        written st' = written st @ map (\<lambda>n. PackageEv n (package_message n)) new \<and>
        distinct new \<and> set new \<inter> set (packagesToInstall st) = {})"

section \<open>Example requests\<close>

abbreviation env_ok :: "(unit, unit) environment" where
  "env_ok \<equiv> \<lparr>request_json = Inr (JObj [(''prompt'', JStr ''hi'')]),
     streamText = Inr \<lparr>chunks = [''ab'', ''c''], failure = None\<rparr>,
     conversationState = None, clock = Suc\<rparr>"

abbreviation env_conv :: "(unit, unit) environment" where
  "env_conv \<equiv> \<lparr>request_json = Inr (JObj [(''prompt'', JStr ''hi'')]),
     streamText = Inr \<lparr>chunks = [''<package>left-pad</package>''], failure = None\<rparr>,
     conversationState = Some \<lparr>context' = \<lparr>messages = []\<rparr>, lastUpdated = 0\<rparr>, clock = Suc\<rparr>"

abbreviation env_fail :: "(unit, unit) environment" where
  "env_fail \<equiv> \<lparr>request_json = Inr (JObj [(''prompt'', JStr ''hi'')]),
     streamText = Inr \<lparr>chunks = [''ab''], failure = Some (Error ''boom'')\<rparr>,
     conversationState = Some \<lparr>context' = \<lparr>messages = []\<rparr>, lastUpdated = 0\<rparr>, clock = Suc\<rparr>"

abbreviation env_throw :: "(unit, unit) environment" where
  "env_throw \<equiv> \<lparr>request_json = Inr (JObj [(''prompt'', JStr ''hi'')]),
     streamText = Inl (Error ''boom''),
     conversationState = None, clock = Suc\<rparr>"

abbreviation env_thrown_value :: "(unit, unit) environment" where
  "env_thrown_value \<equiv> \<lparr>request_json = Inr (JObj [(''prompt'', JStr ''hi'')]),
     streamText = Inr \<lparr>chunks = [''ab''], failure = Some (NonError (Some ''late''))\<rparr>,
     conversationState = Some \<lparr>context' = \<lparr>messages = []\<rparr>, lastUpdated = 0\<rparr>, clock = Suc\<rparr>"

abbreviation env_thrown_null :: "(unit, unit) environment" where
  "env_thrown_null \<equiv> \<lparr>request_json = Inr (JObj [(''prompt'', JStr ''hi'')]),
     streamText = Inr \<lparr>chunks = [''ab''], failure = Some Nullish\<rparr>,
     conversationState = Some \<lparr>context' = \<lparr>messages = []\<rparr>, lastUpdated = 0\<rparr>, clock = Suc\<rparr>"

abbreviation env_null :: "(unit, unit) environment" where
  "env_null \<equiv> \<lparr>request_json = Inr JNull,
     streamText = Inr \<lparr>chunks = [''ab''], failure = None\<rparr>,
     conversationState = None, clock = Suc\<rparr>"

abbreviation env_absent :: "(unit, unit) environment" where
  "env_absent \<equiv> \<lparr>request_json = Inr (JObj [(''isEdit'', JBool True)]),
     streamText = Inr \<lparr>chunks = [''ab''], failure = None\<rparr>,
     conversationState = None, clock = Suc\<rparr>"

abbreviation env_falsy :: "(unit, unit) environment" where
  "env_falsy \<equiv> \<lparr>request_json = Inr (JObj [(''prompt'', JStr '''')]),
     streamText = Inr \<lparr>chunks = [''ab''], failure = None\<rparr>,
     conversationState = None, clock = Suc\<rparr>"

section \<open>Properties of the string operations\<close>

lemma startsWith_append [simp]: "startsWith (p @ s) p"
  by (simp add: startsWith_def)

lemma startsWith_iff: "startsWith s p \<longleftrightarrow> (\<exists>t. s = p @ t)"
proof
  assume "startsWith s p"
  then have "s = p @ drop (length p) s"
    unfolding startsWith_def by (metis append_take_drop_id)
  then show "\<exists>t. s = p @ t" ..
next
  assume "\<exists>t. s = p @ t"
  then show "startsWith s p" by auto
qed

lemma includes_iff: "includes_str s p \<longleftrightarrow> (\<exists>a b. s = a @ p @ b)"
proof (induction s)
  case Nil
  then show ?case by auto
next
  case (Cons c cs)
  show ?case
  proof
    assume "includes_str (c # cs) p"
    then consider "startsWith (c # cs) p" | "includes_str cs p" by auto
    then show "\<exists>a b. c # cs = a @ p @ b"
    proof cases
      case 1
      then obtain t where "c # cs = p @ t" using startsWith_iff by blast
      then have "c # cs = [] @ p @ t" by simp
      then show ?thesis by blast
    next
      case 2
      then obtain a b where "cs = a @ p @ b" using Cons.IH by blast
      then have "c # cs = (c # a) @ p @ b" by simp
      then show ?thesis by blast
    qed
  next
    assume "\<exists>a b. c # cs = a @ p @ b"
    then obtain a b where ab: "c # cs = a @ p @ b" by blast
    show "includes_str (c # cs) p"
    proof (cases a)
      case Nil
      with ab have "startsWith (c # cs) p" by (simp add: startsWith_iff)
      then show ?thesis by simp
    next
      case (Cons x a')
      with ab have "cs = a' @ p @ b" by simp
      then have "includes_str cs p" using Cons.IH by blast
      then show ?thesis by simp
    qed
  qed
qed

lemma replace_prefix: "replace (p @ s) p [] = s"
proof (cases "p @ s")
  case Nil
  then show ?thesis by simp
next
  case (Cons c cs)
  have "startsWith (c # cs) p"
    using startsWith_append [of p s] Cons by simp
  then have "replace (c # cs) p [] = drop (length p) (c # cs)"
    by simp
  also have "\<dots> = s"
    using Cons [symmetric] by simp
  finally show ?thesis
    using Cons by simp
qed

section \<open>Claims about the model selector\<close>

lemma select_model_anthropic: "select_model (''anthropic/'' @ n) = (Anthropic, n)"
  unfolding select_model_def using replace_prefix [of "''anthropic/''" n]
  by (simp only: startsWith_append if_True)

lemma select_model_openai:
  "select_model (''openai/'' @ n) =
     (if \<exists>a b. ''openai/'' @ n = a @ ''gpt-oss'' @ b then (Groq, ''openai/'' @ n)
      else (OpenAI, n))"
proof -
  have "\<not> startsWith (''openai/'' @ n) ''anthropic/''"
    by (simp add: startsWith_def)
  then show ?thesis
    unfolding select_model_def using replace_prefix [of "''openai/''" n]
    by (simp only: startsWith_append includes_iff if_True if_False)
qed

lemma select_model_cerebras: "select_model (''cerebras/'' @ n) = (Cerebras, n)"
proof -
  have "\<not> startsWith (''cerebras/'' @ n) ''anthropic/''"
    and "\<not> startsWith (''cerebras/'' @ n) ''openai/''"
    by (simp_all add: startsWith_def)
  then show ?thesis
    unfolding select_model_def using replace_prefix [of "''cerebras/''" n]
    by (simp only: startsWith_append if_True if_False)
qed

lemma select_model_fallback:
  assumes "\<not> (\<exists>t. m = ''anthropic/'' @ t)" "\<not> (\<exists>t. m = ''openai/'' @ t)"
    "\<not> (\<exists>t. m = ''cerebras/'' @ t)"
  shows "select_model m = (Cerebras, m)"
  unfolding select_model_def using assms
  by (simp only: startsWith_iff if_False)

lemma select_model_examples:
  "select_model ''anthropic/claude-x'' = (Anthropic, ''claude-x'')"
  "select_model ''openai/gpt-4'' = (OpenAI, ''gpt-4'')"
  "select_model ''openai/gpt-oss-20b'' = (Groq, ''openai/gpt-oss-20b'')"
  "select_model ''cerebras/foo'' = (Cerebras, ''foo'')"
  "select_model ''unknown-id'' = (Cerebras, ''unknown-id'')"
  by (simp_all add: select_model_def startsWith_def)

text \<open>
  C1. The selector routes by prefix: an identifier \<open>anthropic/n\<close> goes to the anthropic
  client with \<open>n\<close>; an identifier \<open>openai/n\<close> that contains \<open>gpt-oss\<close> goes to the groq
  client with the whole identifier; any other \<open>openai/n\<close> goes to the openai client with
  \<open>n\<close>; \<open>cerebras/n\<close> goes to the cerebras client with \<open>n\<close>; every other identifier
  goes to the cerebras client as it is. The five identifiers of the specification route
  to anthropic, openai, groq, cerebras and cerebras.
\<close>

theorem select_model_routing:
  "select_model (''anthropic/'' @ n) = (Anthropic, n) \<and>
   ((\<exists>a b. ''openai/'' @ n = a @ ''gpt-oss'' @ b) \<longrightarrow>
      select_model (''openai/'' @ n) = (Groq, ''openai/'' @ n)) \<and>
   (\<not> (\<exists>a b. ''openai/'' @ n = a @ ''gpt-oss'' @ b) \<longrightarrow>
      select_model (''openai/'' @ n) = (OpenAI, n)) \<and>
   select_model (''cerebras/'' @ n) = (Cerebras, n) \<and>
   (\<not> (\<exists>t. m = ''anthropic/'' @ t) \<and> \<not> (\<exists>t. m = ''openai/'' @ t) \<and>
    \<not> (\<exists>t. m = ''cerebras/'' @ t) \<longrightarrow> select_model m = (Cerebras, m)) \<and>
   select_model ''anthropic/claude-x'' = (Anthropic, ''claude-x'') \<and>
   select_model ''openai/gpt-4'' = (OpenAI, ''gpt-4'') \<and>
   select_model ''openai/gpt-oss-20b'' = (Groq, ''openai/gpt-oss-20b'') \<and>
   select_model ''cerebras/foo'' = (Cerebras, ''foo'') \<and>
   select_model ''unknown-id'' = (Cerebras, ''unknown-id'')"
proof (intro conjI impI)
  show "select_model m = (Cerebras, m)"
    if "\<not> (\<exists>t. m = ''anthropic/'' @ t) \<and> \<not> (\<exists>t. m = ''openai/'' @ t) \<and>
      \<not> (\<exists>t. m = ''cerebras/'' @ t)"
    using that by (intro select_model_fallback) simp_all
qed (simp_all only: select_model_anthropic select_model_openai select_model_cerebras
    select_model_examples if_True if_False)

theorem select_model_routing_witness:
  "select_model ''openai/my-gpt-oss'' = (Groq, ''openai/my-gpt-oss'') \<and>
   select_model ''openai/o3'' = (OpenAI, ''o3'') \<and>
   select_model ''llama-3'' = (Cerebras, ''llama-3'')"
proof -
  have oss: "\<exists>a b. ''openai/'' @ ''my-gpt-oss'' = a @ ''gpt-oss'' @ b"
  proof -
    have "''openai/'' @ ''my-gpt-oss'' = ''openai/my-'' @ ''gpt-oss'' @ []" by simp
    then show ?thesis by blast
  qed
  have no_oss: "\<not> (\<exists>a b. ''openai/'' @ ''o3'' = a @ ''gpt-oss'' @ b)"
    unfolding includes_iff [symmetric] by (simp add: startsWith_def)
  have other: "\<not> (\<exists>t. ''llama-3'' = ''anthropic/'' @ t) \<and>
      \<not> (\<exists>t. ''llama-3'' = ''openai/'' @ t) \<and> \<not> (\<exists>t. ''llama-3'' = ''cerebras/'' @ t)"
    by simp
  show ?thesis
    using select_model_routing [of "''my-gpt-oss''" "''llama-3''"]
      select_model_routing [of "''o3''" "''llama-3''"] oss no_oss other
    by simp
qed

section \<open>The relay loop: what it writes\<close>

lemma package_names_append: "package_names (xs @ ys) = package_names xs @ package_names ys"
  by (induction xs rule: package_names.induct) simp_all

lemma text_contents_append: "text_contents (xs @ ys) = text_contents xs @ text_contents ys"
  by (induction xs rule: text_contents.induct) simp_all

lemma package_names_map [simp]: "package_names (map (\<lambda>n. PackageEv n (f n)) ns) = ns"
  by (induction ns) simp_all

lemma text_contents_map [simp]: "text_contents (map (\<lambda>n. PackageEv n (f n)) ns) = []"
  by (induction ns) simp_all

lemma extends_refl: "extends st st"
  by (simp add: extends_def)

lemma extends_trans:
  assumes "extends a b" "extends b c"
  shows "extends a c"
proof -
  from assms(1) obtain n1 where 1: "packagesToInstall b = packagesToInstall a @ n1"
    "written b = written a @ map (\<lambda>n. PackageEv n (package_message n)) n1"
    "distinct n1" "set n1 \<inter> set (packagesToInstall a) = {}"
    and f1: "fullResponse b = fullResponse a" "tagBuffer b = tagBuffer a"
    unfolding extends_def by blast
  from assms(2) obtain n2 where 2: "packagesToInstall c = packagesToInstall b @ n2"
    "written c = written b @ map (\<lambda>n. PackageEv n (package_message n)) n2"
    "distinct n2" "set n2 \<inter> set (packagesToInstall b) = {}"
    and f2: "fullResponse c = fullResponse b" "tagBuffer c = tagBuffer b"
    unfolding extends_def by blast
  have "packagesToInstall c = packagesToInstall a @ (n1 @ n2)"
    using 1 2 by simp
  moreover have "written c = written a @ map (\<lambda>n. PackageEv n (package_message n)) (n1 @ n2)"
    using 1 2 by simp
  moreover have "distinct (n1 @ n2)"
    using 1 2 by auto
  moreover have "set (n1 @ n2) \<inter> set (packagesToInstall a) = {}"
    using 1 2 by auto
  ultimately show ?thesis
    unfolding extends_def using f1 f2 by metis
qed

lemma extends_push:
  assumes "name \<notin> set (packagesToInstall st)"
  shows "extends st (push_package name st)"
proof -
  have "packagesToInstall (push_package name st) = packagesToInstall st @ [name]"
    and "written (push_package name st) =
      written st @ map (\<lambda>n. PackageEv n (package_message n)) [name]"
    and "fullResponse (push_package name st) = fullResponse st"
    and "tagBuffer (push_package name st) = tagBuffer st"
    by (simp_all add: push_package_def sendProgress_def)
  moreover have "distinct [name]" "set [name] \<inter> set (packagesToInstall st) = {}"
    using assms by simp_all
  ultimately show ?thesis
    unfolding extends_def by blast
qed

lemma extends_foldl:
  assumes "\<And>s x. extends s (f s x)"
  shows "extends st (foldl f st xs)"
proof (induction xs arbitrary: st)
  case Nil
  show ?case by (simp add: extends_refl)
next
  case (Cons x xs)
  have "extends st (f st x)" by (rule assms)
  moreover have "extends (f st x) (foldl f (f st x) xs)" by (rule Cons.IH)
  ultimately show ?case
    using extends_trans by simp
qed

lemma extends_on_package_match: "extends st (on_package_match st g)"
  by (simp add: on_package_match_def Let_def extends_refl extends_push)

lemma extends_on_list_item: "extends st (on_list_item st pkg)"
  by (simp add: on_list_item_def extends_refl extends_push)

lemma extends_on_packages_match: "extends st (on_packages_match st g)"
  unfolding on_packages_match_def by (rule extends_foldl) (rule extends_on_list_item)

lemma process_chunk_shape:
  "\<exists>new. packagesToInstall (process_chunk st t) = packagesToInstall st @ new \<and>
     written (process_chunk st t) =
       written st @ TextEv t # map (\<lambda>n. PackageEv n (package_message n)) new \<and>
     distinct new \<and> set new \<inter> set (packagesToInstall st) = {}"
proof -
  define st1 where "st1 = sendProgress (TextEv t) (st\<lparr>fullResponse := fullResponse st @ t\<rparr>)"
  define st2 where "st2 = foldl on_package_match st1 (package_matches (tagBuffer st1 @ t))"
  define st3 where "st3 = foldl on_packages_match st2 (packages_block_matches (tagBuffer st1 @ t))"
  have "extends st1 st2"
    unfolding st2_def by (rule extends_foldl) (rule extends_on_package_match)
  moreover have "extends st2 st3"
    unfolding st3_def by (rule extends_foldl) (rule extends_on_packages_match)
  ultimately have "extends st1 st3" by (rule extends_trans)
  then obtain new where new: "packagesToInstall st3 = packagesToInstall st1 @ new"
    "written st3 = written st1 @ map (\<lambda>n. PackageEv n (package_message n)) new"
    "distinct new" "set new \<inter> set (packagesToInstall st1) = {}"
    unfolding extends_def by blast
  have st1: "packagesToInstall st1 = packagesToInstall st" "written st1 = written st @ [TextEv t]"
    by (simp_all add: st1_def sendProgress_def)
  have pc: "process_chunk st t = st3\<lparr>tagBuffer := slice_last 100 (tagBuffer st1 @ t)\<rparr>"
    by (simp add: process_chunk_def Let_def st1_def st2_def st3_def)
  have "packagesToInstall (process_chunk st t) = packagesToInstall st @ new"
    using pc new st1 by simp
  moreover have "written (process_chunk st t) =
      written st @ TextEv t # map (\<lambda>n. PackageEv n (package_message n)) new"
    using pc new st1 by simp
  ultimately show ?thesis
    using new(3,4) st1(1) by metis
qed

lemma process_chunk_fullResponse:
  "fullResponse (process_chunk st t) = fullResponse st @ t"
proof -
  define st1 where "st1 = sendProgress (TextEv t) (st\<lparr>fullResponse := fullResponse st @ t\<rparr>)"
  define st2 where "st2 = foldl on_package_match st1 (package_matches (tagBuffer st1 @ t))"
  define st3 where "st3 = foldl on_packages_match st2 (packages_block_matches (tagBuffer st1 @ t))"
  have "extends st1 st2"
    unfolding st2_def by (rule extends_foldl) (rule extends_on_package_match)
  moreover have "extends st2 st3"
    unfolding st3_def by (rule extends_foldl) (rule extends_on_packages_match)
  ultimately have "extends st1 st3" by (rule extends_trans)
  then have "fullResponse st3 = fullResponse st1"
    unfolding extends_def by blast
  moreover have "process_chunk st t = st3\<lparr>tagBuffer := slice_last 100 (tagBuffer st1 @ t)\<rparr>"
    by (simp add: process_chunk_def Let_def st1_def st2_def st3_def)
  ultimately show ?thesis
    by (simp add: st1_def sendProgress_def)
qed

lemma process_chunk_tagBuffer:
  "tagBuffer (process_chunk st t) = slice_last 100 (tagBuffer st @ t)"
  by (simp add: process_chunk_def Let_def sendProgress_def)

lemma loop_shape:
  "\<exists>new. packagesToInstall (foldl process_chunk st cs) = packagesToInstall st @ new \<and>
     package_names (written (foldl process_chunk st cs)) = package_names (written st) @ new \<and>
     distinct new \<and> set new \<inter> set (packagesToInstall st) = {}"
proof (induction cs arbitrary: st)
  case Nil
  show ?case by simp
next
  case (Cons c cs)
  obtain n1 where 1: "packagesToInstall (process_chunk st c) = packagesToInstall st @ n1"
    "written (process_chunk st c) =
       written st @ TextEv c # map (\<lambda>n. PackageEv n (package_message n)) n1"
    "distinct n1" "set n1 \<inter> set (packagesToInstall st) = {}"
    using process_chunk_shape by blast
  obtain n2 where 2:
    "packagesToInstall (foldl process_chunk (process_chunk st c) cs) =
       packagesToInstall (process_chunk st c) @ n2"
    "package_names (written (foldl process_chunk (process_chunk st c) cs)) =
       package_names (written (process_chunk st c)) @ n2"
    "distinct n2" "set n2 \<inter> set (packagesToInstall (process_chunk st c)) = {}"
    using Cons.IH by blast
  have "package_names (written (process_chunk st c)) = package_names (written st) @ n1"
    using 1(2) by (simp add: package_names_append)
  then have "package_names (written (foldl process_chunk st (c # cs))) =
      package_names (written st) @ (n1 @ n2)"
    using 2(2) by simp
  moreover have "packagesToInstall (foldl process_chunk st (c # cs)) =
      packagesToInstall st @ (n1 @ n2)"
    using 1(1) 2(1) by simp
  moreover have "distinct (n1 @ n2)"
    using 1 2 by auto
  moreover have "set (n1 @ n2) \<inter> set (packagesToInstall st) = {}"
    using 1 2 by auto
  ultimately show ?case by blast
qed

lemma loop_texts:
  "text_contents (written (foldl process_chunk st cs)) = text_contents (written st) @ cs \<and>
   fullResponse (foldl process_chunk st cs) = fullResponse st @ concat cs"
proof (induction cs arbitrary: st)
  case Nil
  show ?case by simp
next
  case (Cons c cs)
  obtain n1 where "written (process_chunk st c) =
       written st @ TextEv c # map (\<lambda>n. PackageEv n (package_message n)) n1"
    using process_chunk_shape by blast
  then have "text_contents (written (process_chunk st c)) = text_contents (written st) @ [c]"
    by (simp add: text_contents_append)
  then show ?case
    using Cons.IH [of "process_chunk st c"] by (simp add: process_chunk_fullResponse)
qed

lemma relay_loop_packages:
  "package_names (written (relay_loop cs)) = packagesToInstall (relay_loop cs)"
  "distinct (packagesToInstall (relay_loop cs))"
  using loop_shape [of initial_state cs]
  by (auto simp: relay_loop_def initial_state_def)

lemma relay_loop_texts:
  "text_contents (written (relay_loop cs)) = cs"
  "fullResponse (relay_loop cs) = concat cs"
  using loop_texts [of initial_state cs]
  by (simp_all add: relay_loop_def initial_state_def)

lemma slice_last_length: "length (slice_last n s) = min n (length s)"
  by (simp add: slice_last_def)

lemma slice_last_suffix: "\<exists>pre. s = pre @ slice_last n s"
  unfolding slice_last_def by (metis append_take_drop_id)

lemma slice_last_slice_last: "slice_last n (slice_last n a @ b) = slice_last n (a @ b)"
proof (cases "length a \<le> n")
  case True
  then show ?thesis by (simp add: slice_last_def)
next
  case False
  then have "length a + length b - (length a - n + n) + (length a - n) = length a + length b - n"
    by simp
  then show ?thesis by (simp add: slice_last_def)
qed

lemma loop_tagBuffer:
  "tagBuffer (foldl process_chunk st cs) =
     (if cs = [] then tagBuffer st else slice_last 100 (tagBuffer st @ concat cs))"
proof (induction cs arbitrary: st)
  case Nil
  show ?case by simp
next
  case (Cons c cs)
  show ?case
    using Cons.IH [of "process_chunk st c"]
    by (simp add: process_chunk_tagBuffer slice_last_slice_last)
qed

lemma relay_loop_tagBuffer: "tagBuffer (relay_loop cs) = slice_last 100 (concat cs)"
  using loop_tagBuffer [of initial_state cs]
  by (simp add: relay_loop_def initial_state_def slice_last_def)

section \<open>The handler: which path it takes\<close>

lemma events_of_append: "events_of (xs @ ys) = events_of xs @ events_of ys"
  by (induction xs rule: events_of.induct) simp_all

lemma events_of_map_Write [simp]: "events_of (map Write es) = es"
  by (induction es) simp_all

lemma complete_responses_append:
  "complete_responses (xs @ ys) = complete_responses xs @ complete_responses ys"
  by (induction xs rule: complete_responses.induct) simp_all

lemma error_events_append: "error_events (xs @ ys) = error_events xs @ error_events ys"
  by (induction xs rule: error_events.induct) simp_all

lemma outer_catch_json: "outer_catch e \<noteq> EventStream"
  by (cases e) simp_all

lemma written_foldl_process_chunk:
  "complete_responses (written (foldl process_chunk st cs)) = complete_responses (written st) \<and>
   error_events (written (foldl process_chunk st cs)) = error_events (written st)"
proof (induction cs arbitrary: st)
  case Nil
  show ?case by simp
next
  case (Cons c cs)
  obtain new where w: "written (process_chunk st c) =
       written st @ TextEv c # map (\<lambda>n. PackageEv n (package_message n)) new"
    using process_chunk_shape by blast
  have "complete_responses (map (\<lambda>n. PackageEv n (package_message n)) new) = []"
    and "error_events (map (\<lambda>n. PackageEv n (package_message n)) new) = []"
    by (induction new) simp_all
  then have "complete_responses (written (process_chunk st c)) = complete_responses (written st)"
    and "error_events (written (process_chunk st c)) = error_events (written st)"
    using w by (simp_all add: complete_responses_append error_events_append)
  then show ?case
    using Cons.IH [of "process_chunk st c"] by simp
qed

lemma relay_loop_no_terminal:
  "complete_responses (written (relay_loop cs)) = []"
  "error_events (written (relay_loop cs)) = []"
  using written_foldl_process_chunk [of initial_state cs]
  by (simp_all add: relay_loop_def initial_state_def)

lemma relay_closure_success:
  assumes "failure ts = None"
  shows "fst (relay_closure p e ts now cs) =
      map Write (written (relay_loop (chunks ts)) @
        [CompleteEv (concat (chunks ts)) (packagesToInstall (relay_loop (chunks ts)))
           (complete_message (concat (chunks ts)) (packagesToInstall (relay_loop (chunks ts))))])
      @ [Close]"
    and "snd (relay_closure p e ts now cs) =
      map_option (update_conversation p e (concat (chunks ts))
        (packagesToInstall (relay_loop (chunks ts))) now) cs"
  using assms
  by (simp_all add: relay_closure_def Let_def sendProgress_def relay_loop_texts)

lemma relay_closure_failure:
  assumes "failure ts = Some err"
  shows "fst (relay_closure p e ts now cs) =
      map Write (written (inner_catch err (relay_loop (chunks ts)))) @ [Close]"
    and "snd (relay_closure p e ts now cs) = cs"
  using assms
  by (simp_all add: relay_closure_def Let_def)

lemma written_inner_catch:
  "written (inner_catch (Error m) st) = written st @ [ErrorEv (Some m)]"
  "written (inner_catch (NonError n) st) = written st @ [ErrorEv n]"
  "written (inner_catch Nullish st) = written st"
  by (simp_all add: sendProgress_def)

lemma inner_catch_keeps:
  "package_names (written (inner_catch err st)) = package_names (written st)"
  "complete_responses (written (inner_catch err st)) = complete_responses (written st)"
  "text_contents (written (inner_catch err st)) = text_contents (written st)"
  by (cases err; simp add: sendProgress_def package_names_append complete_responses_append
      text_contents_append)+

lemma POST_stream:
  assumes "response (POST env) = EventStream"
  obtains body p m ts where
    "request_json env = Inr body" "body \<noteq> JNull" "property body ''prompt'' = Some p" "truthy p"
    "default_to (JStr ''cerebras/qwen-3-235b-a22b-instruct-2507'') (property body ''model'') = JStr m"
    "streamText env = Inr ts"
    "effects (POST env) =
       [ClientCall (fst (select_model m)) (snd (select_model m)),
        StreamTextCall (select_model m) p (default_to (JNum 0.7) (property body ''temperature''))] @
       fst (relay_closure p (default_to (JBool False) (property body ''isEdit'')) ts (clock env)
              (conversationState env))"
    "conversation (POST env) =
       snd (relay_closure p (default_to (JBool False) (property body ''isEdit'')) ts (clock env)
              (conversationState env))"
proof -
  from assms obtain body where body: "request_json env = Inr body"
    by (cases "request_json env") (simp_all add: POST_def stopped_def outer_catch_json)
  from assms body obtain req where req: "destructure body = Some req"
    by (cases "destructure body") (simp_all add: POST_def stopped_def)
  then have nn: "body \<noteq> JNull"
    by (auto simp: destructure_def)
  from req nn have fields: "prompt req = property body ''prompt''"
    "model req = default_to (JStr ''cerebras/qwen-3-235b-a22b-instruct-2507'') (property body ''model'')"
    "isEdit req = default_to (JBool False) (property body ''isEdit'')"
    "temperature req = default_to (JNum 0.7) (property body ''temperature'')"
    by (auto simp: destructure_def split: json.splits)
  from assms body req obtain p where p: "prompt req = Some p"
    by (cases "prompt req") (simp_all add: POST_def stopped_def)
  from assms body req p have tp: "truthy p"
    by (auto simp: POST_def stopped_def split: if_splits)
  from assms body req p tp obtain m where m: "model req = JStr m"
    by (cases "model req") (simp_all add: POST_def stopped_def)
  from assms body req p tp m have nt: "\<not> template_throws req"
    by (auto simp: POST_def stopped_def Let_def split: if_splits)
  from assms body req p tp m nt obtain ts where ts: "streamText env = Inr ts"
    by (cases "streamText env") (simp_all add: POST_def stopped_def Let_def outer_catch_json)
  have "effects (POST env) =
       [ClientCall (fst (select_model m)) (snd (select_model m)),
        StreamTextCall (select_model m) p (temperature req)] @
       fst (relay_closure p (isEdit req) ts (clock env) (conversationState env))"
    and "conversation (POST env) =
       snd (relay_closure p (isEdit req) ts (clock env) (conversationState env))"
    using body req p tp m nt ts by (simp_all add: POST_def Let_def)
  then show ?thesis
    using that body nn p tp m ts fields by metis
qed

section \<open>Claims about the rolling buffer\<close>

text \<open>
  C6. After the buffer update of every chunk, the rolling buffer is the last at most 100
  characters of the scanned text (the old buffer followed by the chunk), so its length is
  never above 100. Over a whole chunk sequence the buffer is the last at most 100
  characters of the text received so far.
\<close>

theorem tagBuffer_window:
  "tagBuffer (process_chunk st t) = slice_last 100 (tagBuffer st @ t) \<and>
   (\<exists>pre. tagBuffer st @ t = pre @ tagBuffer (process_chunk st t)) \<and>
   length (tagBuffer (process_chunk st t)) = min 100 (length (tagBuffer st @ t)) \<and>
   length (tagBuffer (process_chunk st t)) \<le> 100 \<and>
   (\<exists>pre. concat cs = pre @ tagBuffer (relay_loop cs)) \<and>
   length (tagBuffer (relay_loop cs)) = min 100 (length (concat cs)) \<and>
   length (tagBuffer (relay_loop cs)) \<le> 100"
proof -
  have "\<exists>pre. tagBuffer st @ t = pre @ tagBuffer (process_chunk st t)"
    unfolding process_chunk_tagBuffer by (rule slice_last_suffix)
  moreover have "\<exists>pre. concat cs = pre @ tagBuffer (relay_loop cs)"
    unfolding relay_loop_tagBuffer by (rule slice_last_suffix)
  moreover have "length (tagBuffer (process_chunk st t)) = min 100 (length (tagBuffer st @ t))"
    unfolding process_chunk_tagBuffer by (rule slice_last_length)
  moreover have "length (tagBuffer (relay_loop cs)) = min 100 (length (concat cs))"
    unfolding relay_loop_tagBuffer by (rule slice_last_length)
  ultimately show ?thesis
    using process_chunk_tagBuffer [of st t] by simp
qed

section \<open>The example requests, and the paths that answer with JSON\<close>

lemma env_ok_response: "response (POST env_ok) = EventStream"
  by code_simp

lemma env_conv_response: "response (POST env_conv) = EventStream"
  by code_simp

lemma env_conv_packages: "package_names (events_of (effects (POST env_conv))) = [''left-pad'']"
  by code_simp

lemma env_fail_response: "response (POST env_fail) = EventStream"
  by code_simp

lemma env_thrown_value_response: "response (POST env_thrown_value) = EventStream"
  by code_simp

lemma env_thrown_null_response: "response (POST env_thrown_null) = EventStream"
  by code_simp

lemma env_thrown_null_trace:
  "events_of (effects (POST env_thrown_null)) = [TextEv ''ab'']"
  "\<exists>pre. effects (POST env_thrown_null) = pre @ [Write (TextEv ''ab''), Close]"
proof -
  have eff: "effects (POST env_thrown_null) =
      [ClientCall Cerebras ''qwen-3-235b-a22b-instruct-2507'',
       StreamTextCall (Cerebras, ''qwen-3-235b-a22b-instruct-2507'') (JStr ''hi'') (JNum 0.7),
       Write (TextEv ''ab''), Close]"
    by code_simp
  show "events_of (effects (POST env_thrown_null)) = [TextEv ''ab'']"
    unfolding eff by simp
  have "effects (POST env_thrown_null) =
      [ClientCall Cerebras ''qwen-3-235b-a22b-instruct-2507'',
       StreamTextCall (Cerebras, ''qwen-3-235b-a22b-instruct-2507'') (JStr ''hi'') (JNum 0.7)] @
      [Write (TextEv ''ab''), Close]"
    unfolding eff by simp
  then show "\<exists>pre. effects (POST env_thrown_null) = pre @ [Write (TextEv ''ab''), Close]"
    by blast
qed

lemma POST_json:
  assumes "response (POST env) \<noteq> EventStream"
  shows "events_of (effects (POST env)) = [] \<and> Close \<notin> set (effects (POST env)) \<and>
    conversation (POST env) = conversationState env"
  using assms
  by (auto simp: POST_def stopped_def Let_def
      split: sum.splits option.splits json.splits if_splits)

lemma POST_invocation_throws:
  assumes "request_json env = Inr body" "destructure body = Some req" "prompt req = Some p"
    "truthy p" "model req = JStr m" "\<not> template_throws req" "streamText env = Inl e"
  shows "response (POST env) = outer_catch e"
    and "effects (POST env) =
       [ClientCall (fst (select_model m)) (snd (select_model m)),
        StreamTextCall (select_model m) p (temperature req)]"
  using assms
  by (simp_all add: POST_def stopped_def Let_def)

lemma POST_template_throws:
  assumes "request_json env = Inr body" "destructure body = Some req" "prompt req = Some p"
    "truthy p" "model req = JStr m" "template_throws req"
  shows "response (POST env) = JsonResponse 500 TypeErrorText"
    and "effects (POST env) = [ClientCall (fst (select_model m)) (snd (select_model m))]"
  using assms
  by (simp_all add: POST_def stopped_def Let_def)

lemma Close_not_written: "Close \<notin> set (map Write es)"
  by (induction es) simp_all

lemma POST_throw_reached:
  assumes "streamText env = Inl e" and "streamText_called (effects (POST env))"
  shows "response (POST env) = outer_catch e"
  using assms
  by (auto simp: POST_def stopped_def Let_def
      split: sum.splits option.splits json.splits if_splits)

lemma env_throw_outcome:
  "response (POST env_throw) = JsonResponse 500 (ErrorText ''boom'')"
  "effects (POST env_throw) =
     [ClientCall Cerebras ''qwen-3-235b-a22b-instruct-2507'',
      StreamTextCall (Cerebras, ''qwen-3-235b-a22b-instruct-2507'') (JStr ''hi'') (JNum 0.7)]"
  by (simp_all add: POST_def stopped_def destructure_def default_to_def select_model_def
      startsWith_def template_throws_def)

lemma POST_null_body:
  "request_json env = Inr JNull \<Longrightarrow> response (POST env) = JsonResponse 500 TypeErrorText"
  by (simp add: POST_def destructure_def stopped_def)

section \<open>Claims about the request validator\<close>

text \<open>
  C2, as amended. For every request whose parsed body is not \<open>null\<close> and has \<open>prompt\<close>
  absent or falsy, the handler answers with status 400 and the JSON error
  \<open>prompt is required\<close>; no provider client is called, \<open>streamText\<close> is not called and
  nothing is written to a stream. The other fields have the defaults of the destructuring
  pattern: the model \<open>cerebras/qwen-3-235b-a22b-instruct-2507\<close>, the temperature 0.7 and
  \<open>isEdit\<close> false, each used exactly when the field is absent.
\<close>

theorem missing_prompt_rejected:
  assumes "request_json env = Inr body" and "body \<noteq> JNull"
    and "property body ''prompt'' = None \<or>
         (\<exists>p. property body ''prompt'' = Some p \<and> \<not> truthy p)"
  shows "response (POST env) = JsonResponse 400 (ErrorText ''prompt is required'') \<and>
    effects (POST env) = [] \<and>
    conversation (POST env) = conversationState env \<and>
    (\<exists>req. destructure body = Some req \<and>
       (property body ''model'' = None \<longrightarrow>
          model req = JStr ''cerebras/qwen-3-235b-a22b-instruct-2507'') \<and>
       (property body ''temperature'' = None \<longrightarrow> temperature req = JNum 0.7) \<and>
       (property body ''isEdit'' = None \<longrightarrow> isEdit req = JBool False) \<and>
       (\<forall>v. property body ''model'' = Some v \<longrightarrow> model req = v) \<and>
       (\<forall>v. property body ''temperature'' = Some v \<longrightarrow> temperature req = v) \<and>
       (\<forall>v. property body ''isEdit'' = Some v \<longrightarrow> isEdit req = v))"
proof -
  define req where "req = \<lparr>prompt = property body ''prompt'',
      model = default_to (JStr ''cerebras/qwen-3-235b-a22b-instruct-2507'') (property body ''model''),
      systemPrompt = property body ''systemPrompt'',
      fileContents = property body ''fileContents'',
      isEdit = default_to (JBool False) (property body ''isEdit''),
      temperature = default_to (JNum 0.7) (property body ''temperature'')\<rparr>"
  have d: "destructure body = Some req"
    using assms(2) by (cases body) (simp_all add: destructure_def req_def)
  have p: "prompt req = property body ''prompt''"
    by (simp add: req_def)
  have out: "POST env = stopped (JsonResponse 400 (ErrorText ''prompt is required'')) [] env"
    using assms(1,3) d p by (auto simp: POST_def)
  have "(property body ''model'' = None \<longrightarrow>
          model req = JStr ''cerebras/qwen-3-235b-a22b-instruct-2507'') \<and>
       (property body ''temperature'' = None \<longrightarrow> temperature req = JNum 0.7) \<and>
       (property body ''isEdit'' = None \<longrightarrow> isEdit req = JBool False) \<and>
       (\<forall>v. property body ''model'' = Some v \<longrightarrow> model req = v) \<and>
       (\<forall>v. property body ''temperature'' = Some v \<longrightarrow> temperature req = v) \<and>
       (\<forall>v. property body ''isEdit'' = Some v \<longrightarrow> isEdit req = v)"
    by (simp add: req_def default_to_def)
  with d have "\<exists>req. destructure body = Some req \<and>
       (property body ''model'' = None \<longrightarrow>
          model req = JStr ''cerebras/qwen-3-235b-a22b-instruct-2507'') \<and>
       (property body ''temperature'' = None \<longrightarrow> temperature req = JNum 0.7) \<and>
       (property body ''isEdit'' = None \<longrightarrow> isEdit req = JBool False) \<and>
       (\<forall>v. property body ''model'' = Some v \<longrightarrow> model req = v) \<and>
       (\<forall>v. property body ''temperature'' = Some v \<longrightarrow> temperature req = v) \<and>
       (\<forall>v. property body ''isEdit'' = Some v \<longrightarrow> isEdit req = v)"
    by (intro exI [of _ req] conjI) simp_all
  then show ?thesis
    unfolding out by (simp add: stopped_def)
qed

theorem missing_prompt_rejected_witness:
  "response (POST env_absent) = JsonResponse 400 (ErrorText ''prompt is required'') \<and>
   effects (POST env_absent) = [] \<and>
   response (POST env_falsy) = JsonResponse 400 (ErrorText ''prompt is required'') \<and>
   effects (POST env_falsy) = [] \<and>
   (\<exists>req. destructure (JObj [(''prompt'', JStr '''')]) = Some req \<and>
      model req = JStr ''cerebras/qwen-3-235b-a22b-instruct-2507'' \<and>
      temperature req = JNum 0.7 \<and> isEdit req = JBool False) \<and>
   (\<exists>req. destructure (JObj [(''isEdit'', JBool True)]) = Some req \<and> isEdit req = JBool True)"
proof -
  have a: "request_json env_absent = Inr (JObj [(''isEdit'', JBool True)])"
    "JObj [(''isEdit'', JBool True)] \<noteq> JNull"
    "property (JObj [(''isEdit'', JBool True)]) ''prompt'' = None \<or>
       (\<exists>p. property (JObj [(''isEdit'', JBool True)]) ''prompt'' = Some p \<and> \<not> truthy p)"
    by simp_all
  have f: "request_json env_falsy = Inr (JObj [(''prompt'', JStr '''')])"
    "JObj [(''prompt'', JStr '''')] \<noteq> JNull"
    "property (JObj [(''prompt'', JStr '''')]) ''prompt'' = None \<or>
       (\<exists>p. property (JObj [(''prompt'', JStr '''')]) ''prompt'' = Some p \<and> \<not> truthy p)"
    by simp_all
  from missing_prompt_rejected [OF a] missing_prompt_rejected [OF f] show ?thesis
    by simp blast
qed

text \<open>
  The claim as stated fails for the parsed body \<open>null\<close>: it has no \<open>prompt\<close>, destructuring
  it throws before \<open>prompt\<close> is tested, and the answer is the status 500 of the outer
  \<open>catch\<close>, not 400.
\<close>

theorem null_body_counterexample:
  "request_json env_null = Inr JNull \<and>
   property JNull ''prompt'' = None \<and>
   response (POST env_null) = JsonResponse 500 TypeErrorText \<and>
   response (POST env_null) \<noteq> JsonResponse 400 (ErrorText ''prompt is required'')"
  by (simp add: POST_def destructure_def stopped_def)

section \<open>Claims about the stream and the conversation state\<close>

text \<open>
  C3. When the provider stream yields finitely many chunks and ends without an error, the
  handler writes exactly one complete event, it is the last event, and its \<open>response\<close>
  is the concatenation, in emission order, of the contents of all text events written
  (one per chunk, in the order of the chunks).
\<close>

theorem complete_response_concat:
  assumes "response (POST env) = EventStream" and "streamText env = Inr ts"
    and "failure ts = None"
  shows "complete_responses (events_of (effects (POST env))) =
           [concat (text_contents (events_of (effects (POST env))))] \<and>
         text_contents (events_of (effects (POST env))) = chunks ts \<and>
         (\<exists>evs pk msg. events_of (effects (POST env)) =
            evs @ [CompleteEv (concat (chunks ts)) pk msg])"
proof -
  from assms(1) obtain body p m ts' where ts': "streamText env = Inr ts'"
    and eff: "effects (POST env) =
       [ClientCall (fst (select_model m)) (snd (select_model m)),
        StreamTextCall (select_model m) p (default_to (JNum 0.7) (property body ''temperature''))] @
       fst (relay_closure p (default_to (JBool False) (property body ''isEdit'')) ts' (clock env)
              (conversationState env))"
    by (rule POST_stream)
  from ts' assms(2) have "ts' = ts" by simp
  with eff have ev: "events_of (effects (POST env)) =
      written (relay_loop (chunks ts)) @
        [CompleteEv (concat (chunks ts)) (packagesToInstall (relay_loop (chunks ts)))
           (complete_message (concat (chunks ts)) (packagesToInstall (relay_loop (chunks ts))))]"
    by (simp add: events_of_append relay_closure_success(1) [OF assms(3)])
  have "text_contents (events_of (effects (POST env))) = chunks ts"
    unfolding ev by (simp add: text_contents_append relay_loop_texts)
  moreover have "complete_responses (events_of (effects (POST env))) = [concat (chunks ts)]"
    unfolding ev by (simp add: complete_responses_append relay_loop_no_terminal)
  ultimately show ?thesis
    using ev by simp
qed


theorem complete_response_concat_witness:
  "complete_responses (events_of (effects (POST env_ok))) = [''abc''] \<and>
   text_contents (events_of (effects (POST env_ok))) = [''ab'', ''c'']"
proof -
  have "streamText env_ok = Inr \<lparr>chunks = [''ab'', ''c''], failure = None\<rparr>"
    and "failure \<lparr>chunks = [''ab'', ''c''], failure = None\<rparr> = None"
    by simp_all
  from complete_response_concat [OF env_ok_response this] show ?thesis
    by simp
qed

text \<open>
  C7. On a stream that ends without an error the handler finishes with the complete event
  and closes the writer. When the conversation state is \<open>null\<close> it stays \<open>null\<close>. When it
  exists, exactly two messages are appended to \<open>context.messages\<close>: a user message with the
  prompt, the edit type (\<open>edit\<close> or \<open>generate\<close>) and the packages found, then an assistant
  message with the full response and the same packages; \<open>lastUpdated\<close> is set to the clock,
  and every other field of the state and of its context is as before.
\<close>

theorem conversation_update:
  assumes "response (POST env) = EventStream" and "request_json env = Inr body"
    and "streamText env = Inr ts" and "failure ts = None"
  shows "(\<exists>pre r pk msg. effects (POST env) = pre @ [Write (CompleteEv r pk msg), Close]) \<and>
    error_events (events_of (effects (POST env))) = [] \<and>
    (conversationState env = None \<longrightarrow> conversation (POST env) = None) \<and>
    (\<forall>cs. conversationState env = Some cs \<longrightarrow>
       (\<exists>user_msg assistant_msg.
          conversation (POST env) =
            Some (cs\<lparr>context' := (context' cs)
                       \<lparr>messages := messages (context' cs) @ [user_msg, assistant_msg]\<rparr>,
                     lastUpdated := clock env 4\<rparr>) \<and>
          role user_msg = User \<and>
          Some (content user_msg) = property body ''prompt'' \<and>
          editType (metadata user_msg) =
            Some (if truthy (default_to (JBool False) (property body ''isEdit''))
                  then ''edit'' else ''generate'') \<and>
          addedPackages (metadata user_msg) = package_names (events_of (effects (POST env))) \<and>
          role assistant_msg = Assistant \<and>
          content assistant_msg = JStr (concat (chunks ts)) \<and>
          editType (metadata assistant_msg) = None \<and>
          addedPackages (metadata assistant_msg) =
            package_names (events_of (effects (POST env)))))"
proof -
  from assms(1) obtain body' p m ts' where b: "request_json env = Inr body'"
    and p: "property body' ''prompt'' = Some p" and ts': "streamText env = Inr ts'"
    and eff: "effects (POST env) =
       [ClientCall (fst (select_model m)) (snd (select_model m)),
        StreamTextCall (select_model m) p (default_to (JNum 0.7) (property body' ''temperature''))] @
       fst (relay_closure p (default_to (JBool False) (property body' ''isEdit'')) ts' (clock env)
              (conversationState env))"
    and conv: "conversation (POST env) =
       snd (relay_closure p (default_to (JBool False) (property body' ''isEdit'')) ts' (clock env)
              (conversationState env))"
    by (rule POST_stream)
  from b ts' assms(2,3) have same: "body' = body" "ts' = ts" by simp_all
  let ?st = "relay_loop (chunks ts)"
  let ?done = "CompleteEv (concat (chunks ts)) (packagesToInstall ?st)
      (complete_message (concat (chunks ts)) (packagesToInstall ?st))"
  let ?calls = "[ClientCall (fst (select_model m)) (snd (select_model m)),
        StreamTextCall (select_model m) p (default_to (JNum 0.7) (property body ''temperature''))]"
  have eff': "effects (POST env) = (?calls @ map Write (written ?st)) @ [Write ?done, Close]"
    using eff same by (simp add: relay_closure_success(1) [OF assms(4)])
  then have ev: "events_of (effects (POST env)) = written ?st @ [?done]"
    by (simp add: events_of_append)
  have pk: "package_names (events_of (effects (POST env))) = packagesToInstall ?st"
    unfolding ev by (simp add: package_names_append relay_loop_packages)
  have conv': "conversation (POST env) =
      map_option (update_conversation p (default_to (JBool False) (property body ''isEdit''))
        (concat (chunks ts)) (packagesToInstall ?st) (clock env)) (conversationState env)"
    using conv same by (simp add: relay_closure_success(2) [OF assms(4)])
  have 1: "\<exists>pre r pk msg. effects (POST env) = pre @ [Write (CompleteEv r pk msg), Close]"
    using eff' by blast
  have 2: "error_events (events_of (effects (POST env))) = []"
    unfolding ev by (simp add: error_events_append relay_loop_no_terminal)
  have 3: "conversationState env = None \<longrightarrow> conversation (POST env) = None"
    using conv' by simp
  have 4: "\<exists>user_msg assistant_msg.
          conversation (POST env) =
            Some (cs\<lparr>context' := (context' cs)
                       \<lparr>messages := messages (context' cs) @ [user_msg, assistant_msg]\<rparr>,
                     lastUpdated := clock env 4\<rparr>) \<and>
          role user_msg = User \<and>
          Some (content user_msg) = property body ''prompt'' \<and>
          editType (metadata user_msg) =
            Some (if truthy (default_to (JBool False) (property body ''isEdit''))
                  then ''edit'' else ''generate'') \<and>
          addedPackages (metadata user_msg) = package_names (events_of (effects (POST env))) \<and>
          role assistant_msg = Assistant \<and>
          content assistant_msg = JStr (concat (chunks ts)) \<and>
          editType (metadata assistant_msg) = None \<and>
          addedPackages (metadata assistant_msg) =
            package_names (events_of (effects (POST env)))"
    if cs: "conversationState env = Some cs" for cs
  proof -
    define user_msg where "user_msg = \<lparr>msg_id = ''msg-'' @ show_nat (clock env 0), role = User,
        content = p, timestamp = clock env 1,
        metadata = \<lparr>editType = Some (if truthy (default_to (JBool False) (property body ''isEdit''))
                        then ''edit'' else ''generate''),
          addedPackages = packagesToInstall ?st\<rparr>\<rparr>"
    define assistant_msg where "assistant_msg = \<lparr>msg_id = ''msg-'' @ show_nat (clock env 2 + 1),
        role = Assistant, content = JStr (concat (chunks ts)), timestamp = clock env 3,
        metadata = \<lparr>editType = None, addedPackages = packagesToInstall ?st\<rparr>\<rparr>"
    have "conversation (POST env) =
        Some (cs\<lparr>context' := (context' cs)
                   \<lparr>messages := messages (context' cs) @ [user_msg, assistant_msg]\<rparr>,
                 lastUpdated := clock env 4\<rparr>)"
      using conv' cs
      by (simp add: update_conversation_def Let_def user_msg_def assistant_msg_def)
    moreover have "role user_msg = User" "Some (content user_msg) = property body ''prompt''"
      "editType (metadata user_msg) =
         Some (if truthy (default_to (JBool False) (property body ''isEdit''))
               then ''edit'' else ''generate'')"
      "addedPackages (metadata user_msg) = package_names (events_of (effects (POST env)))"
      using p same pk by (simp_all add: user_msg_def)
    moreover have "role assistant_msg = Assistant"
      "content assistant_msg = JStr (concat (chunks ts))"
      "editType (metadata assistant_msg) = None"
      "addedPackages (metadata assistant_msg) = package_names (events_of (effects (POST env)))"
      using pk by (simp_all add: assistant_msg_def)
    ultimately show ?thesis by blast
  qed
  from 1 2 3 4 show ?thesis by blast
qed

theorem conversation_update_witness:
  "conversation (POST env_ok) = None \<and>
   (\<exists>user_msg assistant_msg.
      conversation (POST env_conv) =
        Some \<lparr>context' = \<lparr>messages = [user_msg, assistant_msg]\<rparr>, lastUpdated = 5\<rparr> \<and>
      role user_msg = User \<and> content user_msg = JStr ''hi'' \<and>
      editType (metadata user_msg) = Some ''generate'' \<and>
      addedPackages (metadata user_msg) = [''left-pad''] \<and>
      role assistant_msg = Assistant \<and>
      content assistant_msg = JStr ''<package>left-pad</package>'' \<and>
      addedPackages (metadata assistant_msg) = [''left-pad''])"
proof -
  have "request_json env_ok = Inr (JObj [(''prompt'', JStr ''hi'')])"
    and "streamText env_ok = Inr \<lparr>chunks = [''ab'', ''c''], failure = None\<rparr>"
    and "failure \<lparr>chunks = [''ab'', ''c''], failure = None\<rparr> = None"
    by simp_all
  from conversation_update [OF env_ok_response this]
  have none: "conversation (POST env_ok) = None"
    by simp
  have "request_json env_conv = Inr (JObj [(''prompt'', JStr ''hi'')])"
    and "streamText env_conv = Inr \<lparr>chunks = [''<package>left-pad</package>''], failure = None\<rparr>"
    and "failure \<lparr>chunks = [''<package>left-pad</package>''], failure = None\<rparr> = None"
    by simp_all
  from conversation_update [OF env_conv_response this]
  have "\<exists>user_msg assistant_msg.
      conversation (POST env_conv) =
        Some \<lparr>context' = \<lparr>messages = [user_msg, assistant_msg]\<rparr>, lastUpdated = 5\<rparr> \<and>
      role user_msg = User \<and> content user_msg = JStr ''hi'' \<and>
      editType (metadata user_msg) = Some ''generate'' \<and>
      addedPackages (metadata user_msg) = [''left-pad''] \<and>
      role assistant_msg = Assistant \<and>
      content assistant_msg = JStr ''<package>left-pad</package>'' \<and>
      addedPackages (metadata assistant_msg) = [''left-pad'']"
    unfolding env_conv_packages by (simp add: default_to_def) blast
  with none show ?thesis by blast
qed

text \<open>
  C10. When the provider stream throws, after any number of chunks and whatever the thrown
  value is, the conversation state is left as it was: no complete event is written,
  neither message is appended and \<open>lastUpdated\<close> is not set. In particular a request whose
  stream ends with an error event has changed nothing in the conversation state.
\<close>

theorem error_leaves_conversation:
  assumes "response (POST env) = EventStream" and "streamText env = Inr ts"
    and "failure ts = Some err"
  shows "conversation (POST env) = conversationState env \<and>
    complete_responses (events_of (effects (POST env))) = [] \<and>
    (\<exists>pre. effects (POST env) = pre @ [Close])"
proof -
  from assms(1) obtain body p m ts' where ts': "streamText env = Inr ts'"
    and eff: "effects (POST env) =
       [ClientCall (fst (select_model m)) (snd (select_model m)),
        StreamTextCall (select_model m) p (default_to (JNum 0.7) (property body ''temperature''))] @
       fst (relay_closure p (default_to (JBool False) (property body ''isEdit'')) ts' (clock env)
              (conversationState env))"
    and conv: "conversation (POST env) =
       snd (relay_closure p (default_to (JBool False) (property body ''isEdit'')) ts' (clock env)
              (conversationState env))"
    by (rule POST_stream)
  from ts' assms(2) have same: "ts' = ts" by simp
  let ?calls = "[ClientCall (fst (select_model m)) (snd (select_model m)),
        StreamTextCall (select_model m) p (default_to (JNum 0.7) (property body ''temperature''))]"
  have eff': "effects (POST env) =
      (?calls @ map Write (written (inner_catch err (relay_loop (chunks ts))))) @ [Close]"
    using eff same by (simp add: relay_closure_failure(1) [OF assms(3)])
  then have "events_of (effects (POST env)) = written (inner_catch err (relay_loop (chunks ts)))"
    by (simp add: events_of_append)
  then have "complete_responses (events_of (effects (POST env))) = []"
    by (simp add: inner_catch_keeps relay_loop_no_terminal)
  moreover have "conversation (POST env) = conversationState env"
    using conv same by (simp add: relay_closure_failure(2) [OF assms(3)])
  moreover have "\<exists>pre. effects (POST env) = pre @ [Close]"
    using eff' by blast
  ultimately show ?thesis by blast
qed

theorem error_leaves_conversation_witness:
  "conversation (POST env_fail) = Some \<lparr>context' = \<lparr>messages = []\<rparr>, lastUpdated = 0\<rparr> \<and>
   complete_responses (events_of (effects (POST env_fail))) = [] \<and>
   conversation (POST env_thrown_null) = Some \<lparr>context' = \<lparr>messages = []\<rparr>, lastUpdated = 0\<rparr> \<and>
   complete_responses (events_of (effects (POST env_thrown_null))) = []"
proof -
  have "streamText env_fail = Inr \<lparr>chunks = [''ab''], failure = Some (Error ''boom'')\<rparr>"
    and "failure \<lparr>chunks = [''ab''], failure = Some (Error ''boom'')\<rparr> = Some (Error ''boom'')"
    by simp_all
  from error_leaves_conversation [OF env_fail_response this]
  have 1: "conversation (POST env_fail) = Some \<lparr>context' = \<lparr>messages = []\<rparr>, lastUpdated = 0\<rparr> \<and>
      complete_responses (events_of (effects (POST env_fail))) = []"
    by simp
  have "streamText env_thrown_null = Inr \<lparr>chunks = [''ab''], failure = Some Nullish\<rparr>"
    and "failure \<lparr>chunks = [''ab''], failure = Some Nullish\<rparr> = Some Nullish"
    by simp_all
  from error_leaves_conversation [OF env_thrown_null_response this]
  have 2: "conversation (POST env_thrown_null) =
        Some \<lparr>context' = \<lparr>messages = []\<rparr>, lastUpdated = 0\<rparr> \<and>
      complete_responses (events_of (effects (POST env_thrown_null))) = []"
    by simp
  from 1 2 show ?thesis by simp
qed

text \<open>
  C8, as amended. When the provider stream throws an \<open>Error\<close> during iteration, or any other
  value but \<open>null\<close> and \<open>undefined\<close>, the handler writes exactly one error event, carrying
  the message of what was thrown, as its last event, and then closes the writer; whenever
  a stream was opened, with or without an error, the writer is closed once, as the last
  effect. When the call of \<open>streamText\<close> itself throws, the outer \<open>catch\<close> answers instead:
  no event is written and no writer is closed, and the response is a JSON error with
  status 500, whose text is the message of a thrown \<open>Error\<close> and \<open>Failed to generate code\<close>
  for any other thrown value.
\<close>

theorem stream_error_reported:
  "(response (POST env) = EventStream \<longrightarrow>
      (\<exists>ts. streamText env = Inr ts \<and>
         (\<forall>msg. failure ts = Some (Error msg) \<longrightarrow>
            error_events (events_of (effects (POST env))) = [Some msg] \<and>
            (\<exists>pre. effects (POST env) = pre @ [Write (ErrorEv (Some msg)), Close])) \<and>
         (\<forall>v. failure ts = Some (NonError v) \<longrightarrow>
            error_events (events_of (effects (POST env))) = [v] \<and>
            (\<exists>pre. effects (POST env) = pre @ [Write (ErrorEv v), Close])) \<and>
         (failure ts = None \<longrightarrow> error_events (events_of (effects (POST env))) = [])) \<and>
      (\<exists>pre. effects (POST env) = pre @ [Close] \<and> Close \<notin> set pre)) \<and>
   (\<forall>e. streamText env = Inl e \<longrightarrow>
      response (POST env) \<noteq> EventStream \<and>
      events_of (effects (POST env)) = [] \<and> Close \<notin> set (effects (POST env)) \<and>
      (streamText_called (effects (POST env)) \<longrightarrow> response (POST env) = outer_catch e) \<and>
      (\<forall>msg. e = Error msg \<and> streamText_called (effects (POST env)) \<longrightarrow>
         response (POST env) = JsonResponse 500 (ErrorText msg)) \<and>
      ((\<forall>msg. e \<noteq> Error msg) \<and> streamText_called (effects (POST env)) \<longrightarrow>
         response (POST env) = JsonResponse 500 (ErrorText ''Failed to generate code'')))"
proof (intro conjI impI allI)
  fix e
  assume inl: "streamText env = Inl e"
  show ne: "response (POST env) \<noteq> EventStream"
  proof
    assume "response (POST env) = EventStream"
    then obtain ts where "streamText env = Inr ts"
      by (rule POST_stream)
    with inl show False by simp
  qed
  from POST_json [OF ne]
  show "events_of (effects (POST env)) = []" and "Close \<notin> set (effects (POST env))"
    by simp_all
  show "response (POST env) = outer_catch e" if "streamText_called (effects (POST env))"
    using inl that by (rule POST_throw_reached)
  show "response (POST env) = JsonResponse 500 (ErrorText msg)"
    if "e = Error msg \<and> streamText_called (effects (POST env))" for msg
    using POST_throw_reached [OF inl] that by simp
  show "response (POST env) = JsonResponse 500 (ErrorText ''Failed to generate code'')"
    if "(\<forall>msg. e \<noteq> Error msg) \<and> streamText_called (effects (POST env))"
    using POST_throw_reached [OF inl] that by (cases e) simp_all
next
  assume stream: "response (POST env) = EventStream"
  then obtain body p m ts where ts: "streamText env = Inr ts"
    and eff: "effects (POST env) =
       [ClientCall (fst (select_model m)) (snd (select_model m)),
        StreamTextCall (select_model m) p (default_to (JNum 0.7) (property body ''temperature''))] @
       fst (relay_closure p (default_to (JBool False) (property body ''isEdit'')) ts (clock env)
              (conversationState env))"
    by (rule POST_stream)
  let ?calls = "[ClientCall (fst (select_model m)) (snd (select_model m)),
        StreamTextCall (select_model m) p (default_to (JNum 0.7) (property body ''temperature''))]"
  let ?w = "written (relay_loop (chunks ts))"
  have failing: "error_events (events_of (effects (POST env))) = [field] \<and>
      (\<exists>pre. effects (POST env) = pre @ [Write (ErrorEv field), Close])"
    if f: "failure ts = Some err"
      and w: "written (inner_catch err (relay_loop (chunks ts))) = ?w @ [ErrorEv field]"
    for err field
  proof -
    have eff': "effects (POST env) = (?calls @ map Write ?w) @ [Write (ErrorEv field), Close]"
      using eff by (simp add: relay_closure_failure(1) [OF f] w)
    then have "events_of (effects (POST env)) = ?w @ [ErrorEv field]"
      by (simp add: events_of_append)
    then have "error_events (events_of (effects (POST env))) = [field]"
      by (simp add: error_events_append relay_loop_no_terminal)
    with eff' show ?thesis by blast
  qed
  have ending: "error_events (events_of (effects (POST env))) = []"
    if f: "failure ts = None"
  proof -
    have "events_of (effects (POST env)) =
        ?w @ [CompleteEv (concat (chunks ts)) (packagesToInstall (relay_loop (chunks ts)))
           (complete_message (concat (chunks ts)) (packagesToInstall (relay_loop (chunks ts))))]"
      using eff by (simp add: events_of_append relay_closure_success(1) [OF f])
    then show ?thesis
      by (simp add: error_events_append relay_loop_no_terminal)
  qed
  show "\<exists>ts. streamText env = Inr ts \<and>
         (\<forall>msg. failure ts = Some (Error msg) \<longrightarrow>
            error_events (events_of (effects (POST env))) = [Some msg] \<and>
            (\<exists>pre. effects (POST env) = pre @ [Write (ErrorEv (Some msg)), Close])) \<and>
         (\<forall>v. failure ts = Some (NonError v) \<longrightarrow>
            error_events (events_of (effects (POST env))) = [v] \<and>
            (\<exists>pre. effects (POST env) = pre @ [Write (ErrorEv v), Close])) \<and>
         (failure ts = None \<longrightarrow> error_events (events_of (effects (POST env))) = [])"
  proof (intro exI [of _ ts] conjI allI impI)
    show "streamText env = Inr ts" by (rule ts)
  next
    fix msg
    assume f: "failure ts = Some (Error msg)"
    from failing [OF f written_inner_catch(1)]
    show "error_events (events_of (effects (POST env))) = [Some msg]"
      and "\<exists>pre. effects (POST env) = pre @ [Write (ErrorEv (Some msg)), Close]"
      by simp_all
  next
    fix v
    assume f: "failure ts = Some (NonError v)"
    from failing [OF f written_inner_catch(2)]
    show "error_events (events_of (effects (POST env))) = [v]"
      and "\<exists>pre. effects (POST env) = pre @ [Write (ErrorEv v), Close]"
      by simp_all
  next
    assume "failure ts = None"
    then show "error_events (events_of (effects (POST env))) = []"
      by (rule ending)
  qed
  show "\<exists>pre. effects (POST env) = pre @ [Close] \<and> Close \<notin> set pre"
  proof (cases "failure ts")
    case None
    have "effects (POST env) =
        (?calls @ map Write (?w @
           [CompleteEv (concat (chunks ts)) (packagesToInstall (relay_loop (chunks ts)))
             (complete_message (concat (chunks ts)) (packagesToInstall (relay_loop (chunks ts))))]))
        @ [Close]"
      using eff by (simp add: relay_closure_success(1) [OF None])
    moreover have "Close \<notin> set (?calls @ map Write (?w @
           [CompleteEv (concat (chunks ts)) (packagesToInstall (relay_loop (chunks ts)))
             (complete_message (concat (chunks ts)) (packagesToInstall (relay_loop (chunks ts))))]))"
      using Close_not_written by auto
    ultimately show ?thesis by blast
  next
    case (Some err)
    have "effects (POST env) =
        (?calls @ map Write (written (inner_catch err (relay_loop (chunks ts))))) @ [Close]"
      using eff by (simp add: relay_closure_failure(1) [OF Some])
    moreover have "Close \<notin> set (?calls @
        map Write (written (inner_catch err (relay_loop (chunks ts)))))"
      using Close_not_written by auto
    ultimately show ?thesis by blast
  qed
qed

theorem stream_error_reported_witness:
  "error_events (events_of (effects (POST env_fail))) = [Some ''boom''] \<and>
   (\<exists>pre. effects (POST env_fail) = pre @ [Write (ErrorEv (Some ''boom'')), Close]) \<and>
   (\<exists>pre. effects (POST env_fail) = pre @ [Close] \<and> Close \<notin> set pre) \<and>
   error_events (events_of (effects (POST env_thrown_value))) = [Some ''late''] \<and>
   error_events (events_of (effects (POST env_ok))) = [] \<and>
   response (POST env_throw) = JsonResponse 500 (ErrorText ''boom'') \<and>
   events_of (effects (POST env_throw)) = []"
proof -
  have 1: "error_events (events_of (effects (POST env_fail))) = [Some ''boom''] \<and>
      (\<exists>pre. effects (POST env_fail) = pre @ [Write (ErrorEv (Some ''boom'')), Close]) \<and>
      (\<exists>pre. effects (POST env_fail) = pre @ [Close] \<and> Close \<notin> set pre)"
    using stream_error_reported [of env_fail] env_fail_response by simp
  have 2: "error_events (events_of (effects (POST env_ok))) = []"
    using stream_error_reported [of env_ok] env_ok_response by simp
  have 3: "error_events (events_of (effects (POST env_thrown_value))) = [Some ''late'']"
    using stream_error_reported [of env_thrown_value] env_thrown_value_response by simp
  have "streamText_called (effects (POST env_throw))"
    by (simp add: env_throw_outcome)
  then have 4: "response (POST env_throw) = JsonResponse 500 (ErrorText ''boom'') \<and>
      events_of (effects (POST env_throw)) = []"
    using stream_error_reported [of env_throw] by simp
  from 1 2 3 4 show ?thesis by simp
qed

text \<open>
  The claim as stated fails where the model invocation throws: the request below gets the
  status 500, and neither an error event nor a close of the writer.
\<close>

theorem invocation_error_counterexample:
  "streamText env_throw = Inl (Error ''boom'') \<and>
   response (POST env_throw) = JsonResponse 500 (ErrorText ''boom'') \<and>
   error_events (events_of (effects (POST env_throw))) = [] \<and>
   Close \<notin> set (effects (POST env_throw))"
  by (simp add: env_throw_outcome)

section \<open>Claims about the tag scanner\<close>

lemma leftpad_chunks:
  "package_names (written (relay_loop [''<pack'', ''age>left-pad</package> ok''])) = [''left-pad'']"
  "package_names (written (relay_loop
     [''<pack'', ''age>left-pad</package> ok'', '' and <package>left-pad</package> again''])) =
   [''left-pad'']"
  by code_simp+

lemma POST_packages_distinct: "distinct (package_names (events_of (effects (POST env))))"
proof (cases "response (POST env) = EventStream")
  case True
  then obtain body p m ts where
    eff: "effects (POST env) =
       [ClientCall (fst (select_model m)) (snd (select_model m)),
        StreamTextCall (select_model m) p (default_to (JNum 0.7) (property body ''temperature''))] @
       fst (relay_closure p (default_to (JBool False) (property body ''isEdit'')) ts (clock env)
              (conversationState env))"
    by (rule POST_stream)
  have "package_names (events_of (effects (POST env))) = packagesToInstall (relay_loop (chunks ts))"
  proof (cases "failure ts")
    case None
    show ?thesis
      using eff
      by (simp add: relay_closure_success(1) [OF None] events_of_append package_names_append
          relay_loop_packages)
  next
    case (Some err)
    show ?thesis
      using eff
      by (simp add: relay_closure_failure(1) [OF Some] events_of_append package_names_append
          inner_catch_keeps relay_loop_packages)
  qed
  then show ?thesis
    by (simp add: relay_loop_packages)
next
  case False
  from POST_json [OF False] show ?thesis
    by simp
qed

lemma packages_block_chunks:
  "packagesList ''react, lodash\<newline>moment'' = [''react'', ''lodash'', ''moment'']"
  "package_names (written (relay_loop [''<packages>react, lodash\<newline>moment</packages>''])) =
     [''react'', ''lodash'', ''moment'']"
  "package_names (written (relay_loop
     [''<packages>react, lodash\<newline>moment</packages>'',
      ''<packages>react, lodash\<newline>moment</packages>''])) =
     [''react'', ''lodash'', ''moment'']"
  "package_names (written (relay_loop
     [''Install <packages>react, lodash\<newline>moment</packages> and, once more, '' @
      ''<packages>react, lodash\<newline>moment</packages>''])) =
     [''react'', ''lodash'', ''moment'']"
  by code_simp+

lemma relay_loop_Cons:
  "\<exists>more. package_names (written (relay_loop (c # rest))) =
     package_names (written (relay_loop [c])) @ more"
proof -
  have "relay_loop (c # rest) = foldl process_chunk (relay_loop [c]) rest"
    by (simp add: relay_loop_def)
  then show ?thesis
    using loop_shape [of "relay_loop [c]" rest] by auto
qed

lemma long_tag_chunks:
  "package_matches (''<package>'' @ replicate 100 CHR ''a'' @ ''</package>'') =
     [replicate 100 CHR ''a'']"
  "package_names (written (relay_loop
     [''<package>'' @ replicate 100 CHR ''a'' @ ''</package>''])) = [replicate 100 CHR ''a'']"
  "package_names (written (relay_loop
     [''<package>'' @ replicate 100 CHR ''a'', ''</package>''])) = []"
  "trim (replicate 100 CHR ''a'') = replicate 100 CHR ''a''"
  by code_simp+

text \<open>
  C4. For the chunks \<open><pack\<close> and \<open>age>left-pad</package> ok\<close> the scanner writes exactly one
  package event, for \<open>left-pad\<close>, also when the same tag comes again in a later chunk. For
  every chunk sequence, and over the whole request, no two package events carry the same
  name: a tag whose trimmed name was announced before, seen again later or scanned again
  through the rolling buffer, writes nothing.
\<close>

theorem package_event_once:
  "package_names (written (relay_loop [''<pack'', ''age>left-pad</package> ok''])) =
     [''left-pad''] \<and>
   package_names (written (relay_loop
     [''<pack'', ''age>left-pad</package> ok'', '' and <package>left-pad</package> again''])) =
     [''left-pad''] \<and>
   distinct (package_names (written (relay_loop cs))) \<and>
   distinct (package_names (events_of (effects (POST env))))"
  using leftpad_chunks relay_loop_packages [of cs] POST_packages_distinct [of env]
  by simp

text \<open>
  C5. The body of the block \<open><packages>react, lodash\<close>, newline, \<open>moment</packages>\<close> is split
  at commas and newlines, each piece is trimmed and empty pieces are dropped. A chunk that
  holds the block writes three package events, for \<open>react\<close>, \<open>lodash\<close> and \<open>moment\<close> in that
  order; each is written once only, whether the block is repeated in the same chunk, in
  the next chunk, or whatever chunks follow.
\<close>

theorem packages_block_events:
  "packagesList ''react, lodash\<newline>moment'' = [''react'', ''lodash'', ''moment''] \<and>
   package_names (written (relay_loop [''<packages>react, lodash\<newline>moment</packages>''])) =
     [''react'', ''lodash'', ''moment''] \<and>
   package_names (written (relay_loop
     [''<packages>react, lodash\<newline>moment</packages>'',
      ''<packages>react, lodash\<newline>moment</packages>''])) =
     [''react'', ''lodash'', ''moment''] \<and>
   package_names (written (relay_loop
     [''Install <packages>react, lodash\<newline>moment</packages> and, once more, '' @
      ''<packages>react, lodash\<newline>moment</packages>''])) =
     [''react'', ''lodash'', ''moment''] \<and>
   (\<exists>more. package_names (written (relay_loop
        (''<packages>react, lodash\<newline>moment</packages>'' # rest))) =
        [''react'', ''lodash'', ''moment''] @ more \<and>
      distinct ([''react'', ''lodash'', ''moment''] @ more))"
proof -
  obtain more where more: "package_names (written (relay_loop
        (''<packages>react, lodash\<newline>moment</packages>'' # rest))) =
        [''react'', ''lodash'', ''moment''] @ more"
    using relay_loop_Cons [of "''<packages>react, lodash\<newline>moment</packages>''" rest]
    unfolding packages_block_chunks(2) by blast
  have "distinct (package_names (written (relay_loop
        (''<packages>react, lodash\<newline>moment</packages>'' # rest))))"
    by (simp only: relay_loop_packages)
  then have "distinct ([''react'', ''lodash'', ''moment''] @ more)"
    unfolding more .
  with more have "\<exists>more. package_names (written (relay_loop
        (''<packages>react, lodash\<newline>moment</packages>'' # rest))) =
        [''react'', ''lodash'', ''moment''] @ more \<and>
      distinct ([''react'', ''lodash'', ''moment''] @ more)"
    by blast
  then show ?thesis
    using packages_block_chunks by (simp only: simp_thms)
qed

text \<open>
  C9. There is a well-formed package tag of more than 100 characters that the scanner finds
  when it arrives in one chunk and misses when it arrives in two: the first chunk is longer
  than the window, so the opening tag has left the rolling buffer when the closing tag
  arrives, and no package event is written.
\<close>

theorem window_blind_spot:
  "\<exists>c1 c2 name.
     c1 @ c2 = ''<package>'' @ name @ ''</package>'' \<and>
     name \<noteq> [] \<and> CHR ''<'' \<notin> set name \<and> trim name = name \<and>
     100 < length (c1 @ c2) \<and> 100 < length c1 \<and>
     package_matches (c1 @ c2) = [name] \<and>
     package_names (written (relay_loop [c1 @ c2])) = [name] \<and>
     package_names (written (relay_loop [c1, c2])) = []"
proof (intro exI conjI)
  show "(''<package>'' @ replicate 100 CHR ''a'') @ ''</package>'' =
      ''<package>'' @ replicate 100 CHR ''a'' @ ''</package>''"
    by simp
  show "replicate 100 CHR ''a'' \<noteq> []" by simp
  show "CHR ''<'' \<notin> set (replicate 100 CHR ''a'')" by simp
  show "trim (replicate 100 CHR ''a'') = replicate 100 CHR ''a''"
    by (rule long_tag_chunks)
  show "100 < length ((''<package>'' @ replicate 100 CHR ''a'') @ ''</package>'')" by simp
  show "100 < length (''<package>'' @ replicate 100 CHR ''a'')" by simp
  show "package_matches ((''<package>'' @ replicate 100 CHR ''a'') @ ''</package>'') =
      [replicate 100 CHR ''a'']"
    using long_tag_chunks(1) by simp
  show "package_names (written (relay_loop
      [(''<package>'' @ replicate 100 CHR ''a'') @ ''</package>''])) = [replicate 100 CHR ''a'']"
    using long_tag_chunks(2) by simp
  show "package_names (written (relay_loop
      [''<package>'' @ replicate 100 CHR ''a'', ''</package>''])) = []"
    by (rule long_tag_chunks)
qed

end
